theory Spec2Isabelle
  imports Complex_Main "HOL-Library.Log_Nat" "HOL-Library.Monad_Syntax"
begin

section \<open>The ERC20 token listener\<close>

text \<open>
  The repository holds two listeners. \<^verbatim>\<open>src/unnamed/part_000\<close> watches four networks,
  keeps a per-network set of processed contract addresses, sends the token facts to the
  scorer wrapped in an array and upserts the record. \<^verbatim>\<open>src/listener.js\<close> watches two
  networks, has no such set, sends the bare object and inserts the record. Both are
  embedded: the definitions of the first carry the source's names, those of the second
  the suffix \<open>_listener_js\<close>. Code that is the same in both files is embedded once.

  Every handler is an \<^verbatim>\<open>async\<close> function, so it runs in segments: from its start or from
  the point where an awaited promise settles, up to the next \<^verbatim>\<open>await\<close>. JavaScript runs
  a segment to completion before it starts another one. A segment is a function on the
  state; which promise settles next, and with what, is an event chosen by the
  environment. A run is a list of events, so a statement about every list of events
  covers every interleaving of the handlers.
\<close>

subsection \<open>JavaScript values\<close>

type_synonym address = string
type_synonym chain = string

text \<open>
  A number is an IEEE double; the finite ones are rationals. JSON text holds no
  \<^verbatim>\<open>undefined\<close> and no BigInt, the transport and the property reads can produce them.
\<close>

datatype number = Fin rat | PosInf | NegInf | NaN

datatype js =
    JUndefined
  | JNull
  | JBool bool
  | JNumber number
  | JBigInt int
  | JString string
  | JArray "js list"
  | JObject "(string \<times> js) list"

text \<open>
  The properties of an object in the order they were written. An object holds a key
  once; in a list that repeats a key the first occurrence is the one read.
\<close>

type_synonym obj = "(string \<times> js) list"

text \<open>What \<^verbatim>\<open>if (v)\<close>, \<^verbatim>\<open>!v\<close>, \<^verbatim>\<open>v && w\<close> and \<^verbatim>\<open>v || w\<close> test.\<close>

fun truthy :: "js \<Rightarrow> bool" where
  "truthy JUndefined = False"
| "truthy JNull = False"
| "truthy (JBool b) = b"
| "truthy (JNumber (Fin r)) = (r \<noteq> 0)"
| "truthy (JNumber NaN) = False"
| "truthy (JNumber PosInf) = True"
| "truthy (JNumber NegInf) = True"
| "truthy (JBigInt i) = (i \<noteq> 0)"
| "truthy (JString s) = (s \<noteq> [])"
| "truthy (JArray vs) = True"
| "truthy (JObject fs) = True"

definition js_or :: "js \<Rightarrow> js \<Rightarrow> js" where
  "js_or v w = (if truthy v then v else w)"

text \<open>
  \<^verbatim>\<open>v.k\<close> for the property names the listeners read, none of which is a built-in
  property of a string, an array, a number or a boolean. \<open>None\<close> is the TypeError of
  reading a property of \<^verbatim>\<open>null\<close> or \<^verbatim>\<open>undefined\<close>.
\<close>

fun getProp :: "js \<Rightarrow> string \<Rightarrow> js option" where
  "getProp JUndefined k = None"
| "getProp JNull k = None"
| "getProp (JObject fs) k = Some (case map_of fs k of None \<Rightarrow> JUndefined | Some v \<Rightarrow> v)"
| "getProp v k = Some JUndefined"

text \<open>\<^verbatim>\<open>{...o, k: v}\<close>: an existing key keeps its place and takes the new value.\<close>

fun setField :: "string \<Rightarrow> js \<Rightarrow> obj \<Rightarrow> obj" where
  "setField k v [] = [(k, v)]"
| "setField k v ((k', v') # fs) = (if k' = k then (k, v) # fs else (k', v') # setField k v fs)"

definition isWhiteSpace :: "char \<Rightarrow> bool" where
  "isWhiteSpace c = (c \<in> {CHR 0x09, CHR 0x0A, CHR 0x0B, CHR 0x0C, CHR 0x0D, CHR 0x20})"

definition trim :: "string \<Rightarrow> string" where
  "trim s = rev (dropWhile isWhiteSpace (rev (dropWhile isWhiteSpace s)))"

text \<open>
  \<^verbatim>\<open>Number(b)\<close> for a BigInt \<open>b\<close>: the nearest double, ties to the even mantissa,
  infinite from \<open>2 ^ 1024 - 2 ^ 970\<close> on.
\<close>

definition Number_BigInt :: "int \<Rightarrow> number" where
  "Number_BigInt b =
     (let m = \<bar>b\<bar>; n = bitlen m in
      if n \<le> 53 then Fin (of_int b)
      else
        let sh = nat (n - 53);
            q = m div 2 ^ sh;
            r = m mod 2 ^ sh;
            half = 2 ^ (sh - 1);
            q' = (if half < r \<or> (r = half \<and> odd q) then q + 1 else q);
            v = q' * 2 ^ sh
        in if 2 ^ 1024 \<le> v then (if b < 0 then NegInf else PosInf)
           else Fin (of_int (sgn b * v)))"

text \<open>
  The builtins of the host that the listeners call. \<open>JSON_parse\<close> gives \<open>None\<close> where
  \<^verbatim>\<open>JSON.parse\<close> throws a SyntaxError; \<open>toISOString\<close> takes the milliseconds handed to
  \<^verbatim>\<open>new Date\<close> and gives \<open>None\<close> where \<^verbatim>\<open>toISOString\<close> throws a RangeError. The values
  handed to \<^verbatim>\<open>JSON.stringify\<close> hold no BigInt and no cycle, so it returns.
\<close>

record host =
  JSON_parse :: "string \<Rightarrow> js option"
  JSON_stringify :: "js \<Rightarrow> string"
  toISOString :: "int \<Rightarrow> string option"

subsection \<open>Blocks, promises, effects\<close>

record tx =
  creates :: "string option"
  tx_from :: string

record block =
  transactions :: "tx list option"
  timestamp :: int

datatype 'a settled = Rejected | Fulfilled 'a

datatype request = Upsert "js list" string | Insert "js list"

text \<open>
  What a listener does to the outside, in order: the three reads of a contract, a line
  on the console (its first argument), the start of the scorer, the text written to its
  standard input, a call of the datastore.
\<close>

datatype effect =
    ContractCalls chain address
  | ConsoleLog string
  | ConsoleError string
  | Spawn string "string list"
  | StdinWrite string
  | DbCall request

text \<open>
  A block handler is suspended at \<^verbatim>\<open>getBlockWithTransactions\<close> or at the
  \<^verbatim>\<open>Promise.all\<close> of one transaction, where it holds the block, the transaction, the
  created address and the transactions still to visit.
\<close>

datatype handler =
    AwaitBlock chain nat
  | AwaitCalls chain block tx address "tx list"

record state =
  processedContracts :: "chain \<rightharpoonup> address set"
  handlers :: "handler list"
  children :: "obj list"
  writes :: "request list"
  trace :: "effect list"

datatype event =
    NewBlock chain nat
  | BlockFetched nat "block option settled"
  | CallsSettled nat "string settled" "string settled" "js settled"
  | ChildClosed nat string string "int option"
  | WriteSettled nat "js option settled"

definition emit :: "effect list \<Rightarrow> state \<Rightarrow> state" where
  "emit es s = s\<lparr>trace := trace s @ es\<rparr>"

definition delete_at :: "nat \<Rightarrow> 'a list \<Rightarrow> 'a list" where
  "delete_at i xs = take i xs @ drop (Suc i) xs"

subsection \<open>Code shared by the two listeners\<close>

text \<open>\<^verbatim>\<open>!tx.creates\<close> is true of \<^verbatim>\<open>null\<close>, \<^verbatim>\<open>undefined\<close> and the empty string.\<close>

definition created :: "tx \<Rightarrow> address option" where
  "created t = (case creates t of None \<Rightarrow> None | Some a \<Rightarrow> if a = [] then None else Some a)"

fun Promise_all :: "'a settled \<Rightarrow> 'b settled \<Rightarrow> 'c settled \<Rightarrow> ('a \<times> 'b \<times> 'c) settled" where
  "Promise_all (Fulfilled a) (Fulfilled b) (Fulfilled c) = Fulfilled (a, b, c)"
| "Promise_all x y z = Rejected"

definition safeDecimals :: "js \<Rightarrow> js" where
  "safeDecimals decimals =
     (case decimals of JBigInt b \<Rightarrow> JNumber (Number_BigInt b) | _ \<Rightarrow> decimals)"

text \<open>
  From the settled \<^verbatim>\<open>Promise.all\<close> to the object \<^verbatim>\<open>tokenData\<close>. \<open>None\<close> is an
  exception, which the \<^verbatim>\<open>catch (e)\<close> around the transaction swallows.
\<close>

definition tokenData ::
  "host \<Rightarrow> chain \<Rightarrow> block \<Rightarrow> tx \<Rightarrow> address \<Rightarrow>
   string settled \<Rightarrow> string settled \<Rightarrow> js settled \<Rightarrow> obj option" where
  "tokenData h chainName b t contractAddress rn rs rd =
     (case Promise_all rn rs rd of
        Rejected \<Rightarrow> None
      | Fulfilled (name, symbol, decimals) \<Rightarrow>
          (case toISOString h (timestamp b * 1000) of
             None \<Rightarrow> None
           | Some createdBlockDatetime \<Rightarrow>
               Some
                 [(''contract_address'', JString contractAddress),
                  (''creator_address'', JString (tx_from t)),
                  (''created_block_timestamp'', JString createdBlockDatetime),
                  (''name'', JString name),
                  (''symbol'', JString symbol),
                  (''decimals'', safeDecimals decimals),
                  (''blockchain'', JString chainName)]))"

text \<open>The reply of the datastore, in both files.\<close>

definition onWriteSettled :: "js option settled \<Rightarrow> state \<Rightarrow> state" where
  "onWriteSettled reply s =
     (case reply of
        Rejected \<Rightarrow> emit [ConsoleError ''Supabase insert exception:''] s
      | Fulfilled (Some error) \<Rightarrow> emit [ConsoleError ''Supabase insert error:''] s
      | Fulfilled None \<Rightarrow> emit [ConsoleLog ''Saved to Supabase.''] s)"

text \<open>An awaited call of the datastore: the request goes out and the handler waits.\<close>

definition dbCall :: "request \<Rightarrow> state \<Rightarrow> state" where
  "dbCall rq s = s\<lparr>writes := writes s @ [rq], trace := trace s @ [DbCall rq]\<rparr>"

subsection \<open>The listener of \<^verbatim>\<open>src/unnamed/part_000\<close>\<close>

definition NETWORKS :: "chain list" where
  "NETWORKS = [''ethereum'', ''base'', ''polygon'', ''arbitrum'']"

text \<open>
  The state once the \<^verbatim>\<open>for\<close> loop over the networks has given each of them an empty
  set and a block listener. The lines the program prints while it starts are left out.
\<close>

definition init :: state where
  "init = \<lparr>processedContracts = map_of (map (\<lambda>chainName. (chainName, {})) NETWORKS),
            handlers = [], children = [], writes = [], trace = []\<rparr>"

text \<open>
  Lines 91 and 92: the check of the set and the insertion, with no \<^verbatim>\<open>await\<close> between
  them. The result is whether the address goes on to verification. The spec calls the
  pair \<open>shouldProcess\<close>. \<open>None\<close> is the TypeError of calling \<^verbatim>\<open>has\<close> on \<^verbatim>\<open>undefined\<close>.
\<close>

definition shouldProcess ::
  "chain \<Rightarrow> address \<Rightarrow> (chain \<rightharpoonup> address set) \<Rightarrow> (bool \<times> (chain \<rightharpoonup> address set)) option" where
  "shouldProcess chainName contractAddress pc =
     (case pc chainName of
        None \<Rightarrow> None
      | Some seen \<Rightarrow>
          if contractAddress \<in> seen then Some (False, pc)
          else Some (True, pc(chainName \<mapsto> insert contractAddress seen)))"

text \<open>
  The \<^verbatim>\<open>for\<close> loop over the transactions, from the transaction it is about to visit up
  to its next \<^verbatim>\<open>await\<close>, which is the \<^verbatim>\<open>Promise.all\<close> of the three reads. An exception
  outside the inner \<^verbatim>\<open>try\<close> ends the handler in the outer \<^verbatim>\<open>catch\<close>. The constructor
  \<^verbatim>\<open>ethers.Contract\<close> of line 94 is taken to return: it starts no request.
\<close>

fun loop :: "chain \<Rightarrow> block \<Rightarrow> tx list \<Rightarrow> state \<Rightarrow> state" where
  "loop chainName b [] s = s"
| "loop chainName b (t # ts) s =
     (case created t of
        None \<Rightarrow> loop chainName b ts s
      | Some contractAddress \<Rightarrow>
          (case shouldProcess chainName contractAddress (processedContracts s) of
             None \<Rightarrow> emit [ConsoleError ''Error processing block:''] s
           | Some (False, pc) \<Rightarrow> loop chainName b ts s
           | Some (True, pc) \<Rightarrow>
               s\<lparr>processedContracts := pc,
                 handlers := handlers s @ [AwaitCalls chainName b t contractAddress ts],
                 trace := trace s @ [ContractCalls chainName contractAddress]\<rparr>))"

definition onBlockFetched :: "chain \<Rightarrow> block option settled \<Rightarrow> state \<Rightarrow> state" where
  "onBlockFetched chainName r s =
     (case r of
        Rejected \<Rightarrow> emit [ConsoleError ''Error processing block:''] s
      | Fulfilled None \<Rightarrow> s
      | Fulfilled (Some b) \<Rightarrow>
          (case transactions b of None \<Rightarrow> s | Some txs \<Rightarrow> loop chainName b txs s))"

text \<open>
  Lines 118 to 133: the detection is logged, the scorer started and fed. The scorer is
  taken to start and, later, to close: a \<^verbatim>\<open>spawn\<close> that fails raises an event this
  program does not listen to.
\<close>

definition spawnScorer :: "host \<Rightarrow> obj \<Rightarrow> state \<Rightarrow> state" where
  "spawnScorer h td s =
     s\<lparr>children := children s @ [td],
       trace := trace s @
         [ConsoleLog ''New ERC20 token detected:'',
          Spawn ''python'' [''risk_assessment_bridge.py''],
          StdinWrite (JSON_stringify h (JArray [JObject td]))]\<rparr>"

definition onCallsSettled ::
  "host \<Rightarrow> chain \<Rightarrow> block \<Rightarrow> tx \<Rightarrow> address \<Rightarrow> tx list \<Rightarrow>
   string settled \<Rightarrow> string settled \<Rightarrow> js settled \<Rightarrow> state \<Rightarrow> state" where
  "onCallsSettled h chainName b t contractAddress ts rn rs rd s =
     loop chainName b ts
       (case tokenData h chainName b t contractAddress rn rs rd of
          None \<Rightarrow> s
        | Some td \<Rightarrow> spawnScorer h td s)"

text \<open>Lines 140 to 153: the value of \<^verbatim>\<open>riskAssessment\<close> and the lines logged on the way.\<close>

definition parseRisk :: "host \<Rightarrow> string \<Rightarrow> int option \<Rightarrow> js \<times> effect list" where
  "parseRisk h riskResult code =
     (if riskResult \<noteq> [] \<and> trim riskResult \<noteq> [] then
        (case JSON_parse h riskResult of
           Some v \<Rightarrow> (v, [ConsoleLog ''Risk Assessment:''])
         | None \<Rightarrow> (JNull, [ConsoleError ''Failed to parse risk assessment:'']))
      else if code \<noteq> Some 0 then
        (JNull, [ConsoleLog ''Skipping risk assessment parsing due to Python error (exit code:''])
      else (JNull, []))"

text \<open>
  Lines 161 to 163: the test \<^verbatim>\<open>riskAssessment && Array.isArray(riskAssessment) &&
  riskAssessment.length > 0\<close> and, where it holds, \<^verbatim>\<open>riskAssessment[0]\<close>.
\<close>

definition assessment_of :: "js \<Rightarrow> js option" where
  "assessment_of riskAssessment =
     (case riskAssessment of JArray (assessment # rest) \<Rightarrow> Some assessment | _ \<Rightarrow> None)"

text \<open>
  Lines 158 to 181: the record to store and the line logged, which is given by its
  fixed beginning. \<open>None\<close> is the TypeError of reading a property of a \<^verbatim>\<open>null\<close> first
  element.
\<close>

definition insertData :: "host \<Rightarrow> obj \<Rightarrow> js \<Rightarrow> (obj \<times> effect list) option" where
  "insertData h td riskAssessment =
     (case assessment_of riskAssessment of
        None \<Rightarrow> Some (td, [])
      | Some assessment \<Rightarrow>
          do {
            risk_category \<leftarrow> getProp assessment ''risk_category'';
            fraud_type \<leftarrow> getProp assessment ''fraud_type'';
            phishing_indicators \<leftarrow> getProp assessment ''phishing_indicators'';
            urls_found \<leftarrow> getProp assessment ''urls_found'';
            money_amounts \<leftarrow> getProp assessment ''money_amounts'';
            details \<leftarrow> getProp assessment ''details'';
            Some
              (setField ''detection_details''
                 (JString (JSON_stringify h (JObject
                    [(''phishing_indicators'', js_or phishing_indicators (JArray [])),
                     (''urls_found'', js_or urls_found (JArray [])),
                     (''money_amounts'', js_or money_amounts (JArray [])),
                     (''details'', js_or details (JObject []))])))
                 (setField ''fraud_type'' (js_or fraud_type (JString ''unknown''))
                    (setField ''risk_category'' (js_or risk_category (JString ''unknown'')) td)),
               [ConsoleLog ''Preparing to save with'']) })"

text \<open>The \<^verbatim>\<open>close\<close> handler of the scorer, lines 133 to 195, up to its \<^verbatim>\<open>await\<close>.\<close>

definition onClose :: "host \<Rightarrow> obj \<Rightarrow> string \<Rightarrow> string \<Rightarrow> int option \<Rightarrow> state \<Rightarrow> state" where
  "onClose h td riskResult riskError code s =
     (let s1 = (if riskError \<noteq> [] then emit [ConsoleLog ''Python stderr output:''] s else s);
          (riskAssessment, logged) = parseRisk h riskResult code;
          s2 = emit logged s1
      in case insertData h td riskAssessment of
           None \<Rightarrow> emit [ConsoleError ''Supabase insert exception:''] s2
         | Some (row, logged') \<Rightarrow>
             dbCall (Upsert [JObject row] ''contract_address,blockchain'') (emit logged' s2))"

text \<open>
  One event. An event that names no pending promise, or one of another kind, changes
  nothing. A block event reaches a listener only on a configured network.
\<close>

fun step :: "host \<Rightarrow> event \<Rightarrow> state \<Rightarrow> state" where
  "step h (NewBlock chainName blockNumber) s =
     (if chainName \<in> set NETWORKS
      then s\<lparr>handlers := handlers s @ [AwaitBlock chainName blockNumber]\<rparr> else s)"
| "step h (BlockFetched i r) s =
     (if i < length (handlers s) then
        (case handlers s ! i of
           AwaitBlock chainName blockNumber \<Rightarrow>
             onBlockFetched chainName r (s\<lparr>handlers := delete_at i (handlers s)\<rparr>)
         | AwaitCalls chainName b t a ts \<Rightarrow> s)
      else s)"
| "step h (CallsSettled i rn rs rd) s =
     (if i < length (handlers s) then
        (case handlers s ! i of
           AwaitBlock chainName blockNumber \<Rightarrow> s
         | AwaitCalls chainName b t a ts \<Rightarrow>
             onCallsSettled h chainName b t a ts rn rs rd (s\<lparr>handlers := delete_at i (handlers s)\<rparr>))
      else s)"
| "step h (ChildClosed i riskResult riskError code) s =
     (if i < length (children s)
      then onClose h (children s ! i) riskResult riskError code
             (s\<lparr>children := delete_at i (children s)\<rparr>)
      else s)"
| "step h (WriteSettled i reply) s =
     (if i < length (writes s)
      then onWriteSettled reply (s\<lparr>writes := delete_at i (writes s)\<rparr>)
      else s)"

definition run :: "host \<Rightarrow> event list \<Rightarrow> state \<Rightarrow> state" where
  "run h evs s = foldl (\<lambda>s' e. step h e s') s evs"

subsection \<open>The listener of \<^verbatim>\<open>src/listener.js\<close>\<close>

definition NETWORKS_listener_js :: "chain list" where
  "NETWORKS_listener_js = [''ethereum'', ''base'']"

text \<open>This file has no \<^verbatim>\<open>processedContracts\<close>: the field stays empty and is never read.\<close>

definition init_listener_js :: state where
  "init_listener_js = \<lparr>processedContracts = Map.empty,
            handlers = [], children = [], writes = [], trace = []\<rparr>"

fun loop_listener_js :: "chain \<Rightarrow> block \<Rightarrow> tx list \<Rightarrow> state \<Rightarrow> state" where
  "loop_listener_js chainName b [] s = s"
| "loop_listener_js chainName b (t # ts) s =
     (case created t of
        None \<Rightarrow> loop_listener_js chainName b ts s
      | Some contractAddress \<Rightarrow>
          s\<lparr>handlers := handlers s @ [AwaitCalls chainName b t contractAddress ts],
            trace := trace s @ [ContractCalls chainName contractAddress]\<rparr>)"

definition onBlockFetched_listener_js :: "chain \<Rightarrow> block option settled \<Rightarrow> state \<Rightarrow> state" where
  "onBlockFetched_listener_js chainName r s =
     (case r of
        Rejected \<Rightarrow> emit [ConsoleError ''Error processing block:''] s
      | Fulfilled None \<Rightarrow> s
      | Fulfilled (Some b) \<Rightarrow>
          (case transactions b of None \<Rightarrow> s | Some txs \<Rightarrow> loop_listener_js chainName b txs s))"

text \<open>Lines 74 to 89: the object itself goes to the scorer.\<close>

definition spawnScorer_listener_js :: "host \<Rightarrow> obj \<Rightarrow> state \<Rightarrow> state" where
  "spawnScorer_listener_js h td s =
     s\<lparr>children := children s @ [td],
       trace := trace s @
         [ConsoleLog ''New ERC20 token detected:'',
          Spawn ''python'' [''risk_assessment_bridge.py''],
          StdinWrite (JSON_stringify h (JObject td))]\<rparr>"

definition onCallsSettled_listener_js ::
  "host \<Rightarrow> chain \<Rightarrow> block \<Rightarrow> tx \<Rightarrow> address \<Rightarrow> tx list \<Rightarrow>
   string settled \<Rightarrow> string settled \<Rightarrow> js settled \<Rightarrow> state \<Rightarrow> state" where
  "onCallsSettled_listener_js h chainName b t contractAddress ts rn rs rd s =
     loop_listener_js chainName b ts
       (case tokenData h chainName b t contractAddress rn rs rd of
          None \<Rightarrow> s
        | Some td \<Rightarrow> spawnScorer_listener_js h td s)"

text \<open>Lines 93 to 99: the output is parsed whatever it is.\<close>

definition parseRisk_listener_js :: "host \<Rightarrow> string \<Rightarrow> js \<times> effect list" where
  "parseRisk_listener_js h riskResult =
     (case JSON_parse h riskResult of
        Some v \<Rightarrow> (v, [ConsoleLog ''Risk Assessment:''])
      | None \<Rightarrow> (JNull, [ConsoleError ''Failed to parse risk assessment:'']))"

text \<open>\<^verbatim>\<open>JSON.stringify(v)\<close> as a value: \<^verbatim>\<open>undefined\<close> for \<^verbatim>\<open>undefined\<close>.\<close>

definition stringified :: "host \<Rightarrow> js \<Rightarrow> js" where
  "stringified h v = (if v = JUndefined then JUndefined else JString (JSON_stringify h v))"

text \<open>Lines 103 to 110. A truthy value is neither \<^verbatim>\<open>null\<close> nor \<^verbatim>\<open>undefined\<close>.\<close>

definition insertData_listener_js :: "host \<Rightarrow> obj \<Rightarrow> js \<Rightarrow> obj option" where
  "insertData_listener_js h td riskAssessment =
     (if truthy riskAssessment then
        do {
          risk_score \<leftarrow> getProp riskAssessment ''risk_score'';
          is_suspicious \<leftarrow> getProp riskAssessment ''is_suspicious'';
          indicators \<leftarrow> getProp riskAssessment ''indicators'';
          details \<leftarrow> getProp riskAssessment ''details'';
          Some
            (setField ''tag_1'' (if truthy is_suspicious then JString ''Phishing'' else JNull)
               (setField ''risk_details'' (stringified h details)
                  (setField ''risk_indicators'' (stringified h indicators)
                     (setField ''is_suspicious'' is_suspicious
                        (setField ''risk_score'' risk_score td))))) }
      else Some td)"

definition onClose_listener_js :: "host \<Rightarrow> obj \<Rightarrow> string \<Rightarrow> string \<Rightarrow> int option \<Rightarrow> state \<Rightarrow> state" where
  "onClose_listener_js h td riskResult riskError code s =
     (let s1 = (if riskError \<noteq> [] then emit [ConsoleError ''Python risk assessment error:''] s
                else s);
          (riskAssessment, logged) = parseRisk_listener_js h riskResult;
          s2 = emit logged s1
      in case insertData_listener_js h td riskAssessment of
           None \<Rightarrow> emit [ConsoleError ''Supabase insert exception:''] s2
         | Some row \<Rightarrow> dbCall (Insert [JObject row]) s2)"

fun step_listener_js :: "host \<Rightarrow> event \<Rightarrow> state \<Rightarrow> state" where
  "step_listener_js h (NewBlock chainName blockNumber) s =
     (if chainName \<in> set NETWORKS_listener_js
      then s\<lparr>handlers := handlers s @ [AwaitBlock chainName blockNumber]\<rparr> else s)"
| "step_listener_js h (BlockFetched i r) s =
     (if i < length (handlers s) then
        (case handlers s ! i of
           AwaitBlock chainName blockNumber \<Rightarrow>
             onBlockFetched_listener_js chainName r (s\<lparr>handlers := delete_at i (handlers s)\<rparr>)
         | AwaitCalls chainName b t a ts \<Rightarrow> s)
      else s)"
| "step_listener_js h (CallsSettled i rn rs rd) s =
     (if i < length (handlers s) then
        (case handlers s ! i of
           AwaitBlock chainName blockNumber \<Rightarrow> s
         | AwaitCalls chainName b t a ts \<Rightarrow>
             onCallsSettled_listener_js h chainName b t a ts rn rs rd
               (s\<lparr>handlers := delete_at i (handlers s)\<rparr>))
      else s)"
| "step_listener_js h (ChildClosed i riskResult riskError code) s =
     (if i < length (children s)
      then onClose_listener_js h (children s ! i) riskResult riskError code
             (s\<lparr>children := delete_at i (children s)\<rparr>)
      else s)"
| "step_listener_js h (WriteSettled i reply) s =
     (if i < length (writes s)
      then onWriteSettled reply (s\<lparr>writes := delete_at i (writes s)\<rparr>)
      else s)"

definition run_listener_js :: "host \<Rightarrow> event list \<Rightarrow> state \<Rightarrow> state" where
  "run_listener_js h evs s = foldl (\<lambda>s' e. step_listener_js h e s') s evs"

subsection \<open>The datastore\<close>

text \<open>
  The datastore is a service outside the repository, which the listeners reach through
  \<^verbatim>\<open>upsert\<close> and \<^verbatim>\<open>insert\<close>. What it does with a request is not in the source; the
  spec gives one table whose rows are unique per (contract address, network name).
\<close>

type_synonym table = "obj list"

text \<open>The columns named by a conflict target such as \<open>contract_address,blockchain\<close>.\<close>

fun splitOn :: "char \<Rightarrow> string \<Rightarrow> string list" where
  "splitOn c [] = [[]]"
| "splitOn c (x # xs) =
     (if x = c then [] # splitOn c xs
      else (case splitOn c xs of [] \<Rightarrow> [[x]] | w # ws \<Rightarrow> (x # w) # ws))"

definition keyOn :: "string list \<Rightarrow> obj \<Rightarrow> js option list" where
  "keyOn cols row = map (map_of row) cols"

text \<open>
  Modelled from the spec: the unique constraint of the table, which is missing from the
  source. The spec has the record \<open>unique per (contractAddress, networkName) pair\<close>, the
  columns \<open>contract_address\<close> and \<open>blockchain\<close> of its persistence collaborator.
\<close>

definition uniqueKey :: "string list" where
  "uniqueKey = [''contract_address'', ''blockchain'']"

text \<open>
  Modelled from the spec: the update of a stored row, which is missing from the source.
  The spec says that a second insert for the same key \<open>updates the existing row\<close>: the
  columns of the new record are written over the row.
\<close>

fun mergeRow :: "obj \<Rightarrow> obj \<Rightarrow> obj" where
  "mergeRow old [] = old"
| "mergeRow old ((k, v) # fs) = mergeRow (setField k v old) fs"

text \<open>
  Modelled from the spec: the upsert of one record, which is missing from the source.
  The spec describes \<open>an upsert operation against a single logical table keyed by
  (contract_address, blockchain)\<close>, under which a record whose key is stored \<open>updates the
  existing row rather than erroring or duplicating\<close>; any other record is a new row.
\<close>

fun upsertRow :: "string list \<Rightarrow> obj \<Rightarrow> table \<Rightarrow> table" where
  "upsertRow cols row [] = [row]"
| "upsertRow cols row (r # rs) =
     (if keyOn cols r = keyOn cols row then mergeRow r row # rs
      else r # upsertRow cols row rs)"

fun rowOf :: "js \<Rightarrow> obj" where
  "rowOf (JObject fs) = fs"
| "rowOf v = []"

text \<open>
  Modelled from the spec: what the datastore does with a request, which is missing from
  the source. An upsert takes its records in turn. A plain insert is refused as a whole,
  and leaves the table as it was, when it would break the uniqueness of the key, the
  \<open>natural key enforced at the storage boundary\<close> of the spec.
\<close>

fun serve :: "request \<Rightarrow> table \<Rightarrow> table" where
  "serve (Upsert rows onConflict) tbl =
     foldl (\<lambda>tbl' r. upsertRow (splitOn CHR '','' onConflict) (rowOf r) tbl') tbl rows"
| "serve (Insert rows) tbl =
     (if distinct (map (keyOn uniqueKey) (tbl @ map rowOf rows)) then tbl @ map rowOf rows
      else tbl)"

subsection \<open>What the claims speak of\<close>

text \<open>
  The spec's Block Processor: the candidates of a block are its transactions whose
  \<^verbatim>\<open>creates\<close> field is non-empty, in the order of the block.
\<close>

definition candidates :: "tx list \<Rightarrow> tx list" where
  "candidates txs = filter (\<lambda>t. created t \<noteq> None) txs"

text \<open>The contracts read, in the order of the reads.\<close>

fun probes :: "effect list \<Rightarrow> (chain \<times> address) list" where
  "probes [] = []"
| "probes (ContractCalls c a # es) = (c, a) # probes es"
| "probes (e # es) = probes es"

text \<open>The calls of the datastore, in order.\<close>

fun requests :: "effect list \<Rightarrow> request list" where
  "requests [] = []"
| "requests (DbCall rq # es) = rq # requests es"
| "requests (e # es) = requests es"

text \<open>
  The effects of the stages after verification: the line that reports a detection, the
  scorer, the datastore and their log lines. The reads of a contract and the line of the
  outer \<^verbatim>\<open>catch\<close> of the block handler are not among them.
\<close>

fun downstream :: "effect \<Rightarrow> bool" where
  "downstream (ContractCalls c a) = False"
| "downstream (ConsoleError m) = (m \<noteq> ''Error processing block:'')"
| "downstream e = True"


text \<open>The texts written to the standard input of the scorer, in order.\<close>

fun stdinTexts :: "effect list \<Rightarrow> string list" where
  "stdinTexts [] = []"
| "stdinTexts (StdinWrite w # es) = w # stdinTexts es"
| "stdinTexts (e # es) = stdinTexts es"

text \<open>
  The spec's request to the scorer: the JSON text of an ordered sequence that holds one
  object with the seven token facts.
\<close>

definition tokenFacts :: "string list" where
  "tokenFacts = [''contract_address'', ''creator_address'', ''created_block_timestamp'',
                 ''name'', ''symbol'', ''decimals'', ''blockchain'']"

definition arrayOfOne :: "host \<Rightarrow> string \<Rightarrow> bool" where
  "arrayOfOne h w = (\<exists>td. map fst td = tokenFacts \<and> w = JSON_stringify h (JArray [JObject td]))"

text \<open>An address is marked on a network when it is in the network's set.\<close>

definition marked :: "state \<Rightarrow> chain \<Rightarrow> address \<Rightarrow> bool" where
  "marked s chainName a =
     (case processedContracts s chainName of None \<Rightarrow> False | Some seen \<Rightarrow> a \<in> seen)"

text \<open>
  No contract was read twice on a network, and every contract read is marked there.
\<close>

definition once :: "state \<Rightarrow> bool" where
  "once s = (distinct (probes (trace s)) \<and>
     (\<forall>c a. (c, a) \<in> set (probes (trace s)) \<longrightarrow> marked s c a))"

text \<open>Every handler that waits for the reads of a contract has marked it.\<close>

definition pendingMarked :: "state \<Rightarrow> bool" where
  "pendingMarked s =
     (\<forall>c b t a ts. AwaitCalls c b t a ts \<in> set (handlers s) \<longrightarrow> marked s c a)"


subsection \<open>A host to evaluate with\<close>

text \<open>
  The theorems below hold for every host. The examples need one: its \<open>toISOString\<close> is
  the calendar computation of the language standard, its \<open>JSON_stringify\<close> prints
  strings, whole numbers, arrays and objects as \<^verbatim>\<open>JSON.stringify\<close> does, and its
  \<open>JSON_parse\<close> knows the five texts the examples feed it and rejects any other.
\<close>

definition digit :: "int \<Rightarrow> char" where
  "digit n = ''0123456789abcdef'' ! nat n"

function decimal :: "int \<Rightarrow> string" where
  "decimal n = (if n < 10 then [digit n] else decimal (n div 10) @ [digit (n mod 10)])"
  by pat_completeness auto
termination
  by (relation "measure nat") auto

declare decimal.simps [simp del]

definition pad :: "nat \<Rightarrow> int \<Rightarrow> string" where
  "pad w n = replicate (w - length (decimal n)) CHR ''0'' @ decimal n"

definition civil :: "int \<Rightarrow> int \<times> int \<times> int" where
  "civil days =
     (let z = days + 719468;
          era = z div 146097;
          doe = z mod 146097;
          yoe = (doe - doe div 1460 + doe div 36524 - doe div 146096) div 365;
          doy = doe - (365 * yoe + yoe div 4 - yoe div 100);
          mp = (5 * doy + 2) div 153;
          d = doy - (153 * mp + 2) div 5 + 1;
          m = (if mp < 10 then mp + 3 else mp - 9);
          y = yoe + era * 400 + (if m \<le> 2 then 1 else 0)
      in (y, m, d))"

definition toISOString_utc :: "int \<Rightarrow> string option" where
  "toISOString_utc ms =
     (if 8640000000000000 < \<bar>ms\<bar> then None
      else
        let (y, m, d) = civil (ms div 86400000);
            t = ms mod 86400000;
            year = (if 0 \<le> y \<and> y \<le> 9999 then pad 4 y
                    else (if y < 0 then ''-'' else ''+'') @ pad 6 \<bar>y\<bar>)
        in Some (year @ ''-'' @ pad 2 m @ ''-'' @ pad 2 d @ ''T'' @
                 pad 2 (t div 3600000) @ '':'' @ pad 2 (t mod 3600000 div 60000) @ '':'' @
                 pad 2 (t mod 60000 div 1000) @ ''.'' @ pad 3 (t mod 1000) @ ''Z''))"

definition escape :: "char \<Rightarrow> string" where
  "escape c =
     (if c = CHR 0x22 then [CHR 0x5C, CHR 0x22]
      else if c = CHR 0x5C then [CHR 0x5C, CHR 0x5C]
      else if c = CHR 0x08 then [CHR 0x5C, CHR ''b'']
      else if c = CHR 0x09 then [CHR 0x5C, CHR ''t'']
      else if c = CHR 0x0A then [CHR 0x5C, CHR ''n'']
      else if c = CHR 0x0C then [CHR 0x5C, CHR ''f'']
      else if c = CHR 0x0D then [CHR 0x5C, CHR ''r'']
      else if (of_char c :: nat) < 32
        then [CHR 0x5C, CHR ''u'', CHR ''0'', CHR ''0'',
              digit (int (of_char c) div 16), digit (int (of_char c) mod 16)]
      else [c])"

definition quote :: "string \<Rightarrow> string" where
  "quote s = [CHR 0x22] @ concat (map escape s) @ [CHR 0x22]"

fun commas :: "string list \<Rightarrow> string" where
  "commas [] = []"
| "commas [x] = x"
| "commas (x # y # zs) = x @ '','' @ commas (y # zs)"

definition numeral_text :: "number \<Rightarrow> string" where
  "numeral_text n =
     (case n of
        Fin r \<Rightarrow> (if r < 0 then ''-'' else []) @ decimal \<bar>\<lfloor>r\<rfloor>\<bar>
      | _ \<Rightarrow> ''null'')"

fun stringify :: "js \<Rightarrow> string" where
  "stringify JUndefined = []"
| "stringify JNull = ''null''"
| "stringify (JBool b) = (if b then ''true'' else ''false'')"
| "stringify (JNumber n) = numeral_text n"
| "stringify (JBigInt i) = []"
| "stringify (JString s) = quote s"
| "stringify (JArray vs) =
     ''['' @ commas (map (\<lambda>v. if v = JUndefined then ''null'' else stringify v) vs) @ '']''"
| "stringify (JObject fs) =
     ''{'' @ commas (map (\<lambda>(k, v). quote k @ '':'' @ stringify v)
                      (filter (\<lambda>(k, v). v \<noteq> JUndefined) fs)) @ ''}''"

definition parse_known :: "string \<Rightarrow> js option" where
  "parse_known s =
     (if s = ''[null]'' then Some (JArray [JNull])
      else if s = ''[{\"risk_category\":\"high\"}]''
        then Some (JArray [JObject [(''risk_category'', JString ''high'')]])
      else if s = ''[{\"risk_category\":\"low\"}]''
        then Some (JArray [JObject [(''risk_category'', JString ''low'')]])
      else if s = ''{\"risk_score\":10,\"is_suspicious\":false}''
        then Some (JObject [(''risk_score'', JNumber (Fin 10)), (''is_suspicious'', JBool False)])
      else if s = ''{\"risk_score\":90,\"is_suspicious\":true}''
        then Some (JObject [(''risk_score'', JNumber (Fin 90)), (''is_suspicious'', JBool True)])
      else None)"

definition exampleHost :: host where
  "exampleHost = \<lparr>JSON_parse = parse_known, JSON_stringify = stringify,
                   toISOString = toISOString_utc\<rparr>"

text \<open>A block of two transactions, the second of which deploys a contract.\<close>

definition exampleTx :: tx where
  "exampleTx = \<lparr>creates = Some ''0xAAA'', tx_from = ''0xF00''\<rparr>"

definition exampleBlock :: block where
  "exampleBlock =
     \<lparr>transactions = Some [\<lparr>creates = None, tx_from = ''0xF01''\<rparr>, exampleTx],
      timestamp = 1700000000\<rparr>"

text \<open>The token data of the contract that \<open>exampleTx\<close> deploys.\<close>

definition exampleToken :: obj where
  "exampleToken =
     [(''contract_address'', JString ''0xAAA''),
      (''creator_address'', JString ''0xF00''),
      (''created_block_timestamp'', JString ''2023-11-14T22:13:20.000Z''),
      (''name'', JString ''Foo''),
      (''symbol'', JString ''FOO''),
      (''decimals'', JNumber (Fin 18)),
      (''blockchain'', JString ''ethereum'')]"

text \<open>
  The records of that token with a verdict of the given category, as the listener of
  \<^verbatim>\<open>src/unnamed/part_000\<close> builds them, and with a score, as \<^verbatim>\<open>src/listener.js\<close> does.
\<close>

definition exampleRow :: "string \<Rightarrow> obj" where
  "exampleRow category = exampleToken @
     [(''risk_category'', JString category),
      (''fraud_type'', JString ''unknown''),
      (''detection_details'', JString
         ''{\"phishing_indicators\":[],\"urls_found\":[],\"money_amounts\":[],\"details\":{}}'')]"

definition exampleRow_listener_js :: "rat \<Rightarrow> bool \<Rightarrow> obj" where
  "exampleRow_listener_js score suspicious = exampleToken @
     [(''risk_score'', JNumber (Fin score)),
      (''is_suspicious'', JBool suspicious),
      (''risk_indicators'', JUndefined),
      (''risk_details'', JUndefined),
      (''tag_1'', if suspicious then JString ''Phishing'' else JNull)]"

section \<open>Properties\<close>

subsection \<open>Effects of the segments\<close>

lemma probes_append [simp]: "probes (xs @ ys) = probes xs @ probes ys"
  by (induction xs rule: probes.induct) auto

lemma requests_append [simp]: "requests (xs @ ys) = requests xs @ requests ys"
  by (induction xs rule: requests.induct) auto

lemma map_of_setField: "map_of (setField k v fs) = (map_of fs)(k \<mapsto> v)"
  by (induction fs) auto

lemma emit_simps [simp]:
  "trace (emit es s) = trace s @ es"
  "processedContracts (emit es s) = processedContracts s"
  "handlers (emit es s) = handlers s"
  "children (emit es s) = children s"
  "writes (emit es s) = writes s"
  by (simp_all add: emit_def)

lemma dbCall_simps [simp]:
  "trace (dbCall rq s) = trace s @ [DbCall rq]"
  "processedContracts (dbCall rq s) = processedContracts s"
  "handlers (dbCall rq s) = handlers s"
  "children (dbCall rq s) = children s"
  "writes (dbCall rq s) = writes s @ [rq]"
  by (simp_all add: dbCall_def)

lemma spawnScorer_simps [simp]:
  "trace (spawnScorer h td s) = trace s @
     [ConsoleLog ''New ERC20 token detected:'', Spawn ''python'' [''risk_assessment_bridge.py''],
      StdinWrite (JSON_stringify h (JArray [JObject td]))]"
  "processedContracts (spawnScorer h td s) = processedContracts s"
  "handlers (spawnScorer h td s) = handlers s"
  "children (spawnScorer h td s) = children s @ [td]"
  "writes (spawnScorer h td s) = writes s"
  by (simp_all add: spawnScorer_def)

lemma loop_shape:
  "loop c b txs s = s \<or>
   loop c b txs s = emit [ConsoleError ''Error processing block:''] s \<or>
   (\<exists>pre t a ts seen. txs = pre @ t # ts \<and> created t = Some a \<and>
      processedContracts s c = Some seen \<and> a \<notin> seen \<and>
      loop c b txs s =
        s\<lparr>processedContracts := (processedContracts s)(c \<mapsto> insert a seen),
          handlers := handlers s @ [AwaitCalls c b t a ts],
          trace := trace s @ [ContractCalls c a]\<rparr>)"
  (is "?P txs")
proof (induction txs)
  case Nil
  then show ?case by simp
next
  case (Cons t ts)
  have skip: "?P (t # ts)" if eq: "loop c b (t # ts) s = loop c b ts s"
  proof -
    from Cons.IH consider
        (same) "loop c b ts s = s"
      | (err) "loop c b ts s = emit [ConsoleError ''Error processing block:''] s"
      | (probe) pre t' a ts' seen where "ts = pre @ t' # ts'" "created t' = Some a"
          "processedContracts s c = Some seen" "a \<notin> seen"
          "loop c b ts s =
             s\<lparr>processedContracts := (processedContracts s)(c \<mapsto> insert a seen),
               handlers := handlers s @ [AwaitCalls c b t' a ts'],
               trace := trace s @ [ContractCalls c a]\<rparr>"
      by blast
    then show ?thesis
    proof cases
      case same
      with eq show ?thesis by simp
    next
      case err
      with eq show ?thesis by simp
    next
      case probe
      from probe(1) have "t # ts = (t # pre) @ t' # ts'" by simp
      with probe eq show ?thesis by metis
    qed
  qed
  show ?case
  proof (cases "created t")
    case None
    then show ?thesis by (intro skip) simp
  next
    case (Some a)
    note cr = this
    show ?thesis
    proof (cases "processedContracts s c")
      case None
      with cr show ?thesis by (simp add: shouldProcess_def)
    next
      case (Some seen)
      show ?thesis
      proof (cases "a \<in> seen")
        case True
        with Some cr show ?thesis by (intro skip) (simp add: shouldProcess_def)
      next
        case False
        have "t # ts = [] @ t # ts" by simp
        moreover from False Some cr have "loop c b (t # ts) s =
            s\<lparr>processedContracts := (processedContracts s)(c \<mapsto> insert a seen),
              handlers := handlers s @ [AwaitCalls c b t a ts],
              trace := trace s @ [ContractCalls c a]\<rparr>"
          by (simp add: shouldProcess_def)
        ultimately show ?thesis using cr Some False by blast
      qed
    qed
  qed
qed


lemma loop_cases:
  obtains (same) "loop c b txs s = s"
  | (err) "loop c b txs s = emit [ConsoleError ''Error processing block:''] s"
  | (probe) pre t a ts seen where "txs = pre @ t # ts" "created t = Some a"
      "processedContracts s c = Some seen" "a \<notin> seen"
      "loop c b txs s =
         s\<lparr>processedContracts := (processedContracts s)(c \<mapsto> insert a seen),
           handlers := handlers s @ [AwaitCalls c b t a ts],
           trace := trace s @ [ContractCalls c a]\<rparr>"
  using loop_shape [of c b txs s] by blast

lemma marked_probe:
  "processedContracts s c = Some seen \<Longrightarrow>
   marked (s\<lparr>processedContracts := (processedContracts s)(c \<mapsto> insert a seen),
             handlers := H, trace := T\<rparr>) c' a' = (marked s c' a' \<or> (c' = c \<and> a' = a))"
  by (auto simp: marked_def split: option.splits)

lemma marked_emit [simp]: "marked (emit es s) = marked s"
  by (simp add: marked_def fun_eq_iff)

lemma once_loop:
  assumes inv: "once s"
  shows "once (loop c b txs s)"
proof (cases rule: loop_cases [of c b txs s])
  case same
  with inv show ?thesis by simp
next
  case err
  with inv show ?thesis by (simp add: once_def)
next
  case (probe pre t a ts seen)
  from probe(3,4) have "\<not> marked s c a" by (simp add: marked_def)
  with inv have "(c, a) \<notin> set (probes (trace s))" by (auto simp: once_def)
  with inv probe show ?thesis by (auto simp: once_def marked_probe)
qed

lemma marked_loop: "marked s c' a' \<Longrightarrow> marked (loop c b txs s) c' a'"
  by (cases rule: loop_cases [of c b txs s]) (auto simp: marked_probe)

lemma count_loop:
  assumes "marked s c' a'"
  shows "count_list (probes (trace (loop c b txs s))) (c', a') = count_list (probes (trace s)) (c', a')"
proof (cases rule: loop_cases [of c b txs s])
  case same
  then show ?thesis by simp
next
  case err
  then show ?thesis by simp
next
  case (probe pre t a ts seen)
  from probe(3,4) have "\<not> marked s c a" by (simp add: marked_def)
  with assms have "(c', a') \<noteq> (c, a)" by auto
  with probe show ?thesis by auto
qed

lemma marked_fields [simp]:
  "marked (s\<lparr>handlers := H\<rparr>) = marked s"
  "marked (s\<lparr>children := C\<rparr>) = marked s"
  "marked (s\<lparr>writes := W\<rparr>) = marked s"
  "marked (s\<lparr>trace := T\<rparr>) = marked s"
  "marked (dbCall rq s) = marked s"
  "marked (spawnScorer h td s) = marked s"
  by (simp_all add: marked_def fun_eq_iff)

lemma once_fields [simp]:
  "once (s\<lparr>handlers := H\<rparr>) = once s"
  "once (s\<lparr>children := C\<rparr>) = once s"
  "once (s\<lparr>writes := W\<rparr>) = once s"
  by (simp_all add: once_def)

lemma probes_parseRisk [simp]: "probes (snd (parseRisk h riskResult code)) = []"
  by (simp add: parseRisk_def split: option.splits)

lemma probes_insertData [simp]: "insertData h td ra = Some (row, logged) \<Longrightarrow> probes logged = []"
  by (auto simp: insertData_def split: option.splits Option.bind_splits)

lemma onClose_frame [simp]:
  "processedContracts (onClose h td riskResult riskError code s) = processedContracts s"
  "probes (trace (onClose h td riskResult riskError code s)) = probes (trace s)"
  "handlers (onClose h td riskResult riskError code s) = handlers s"
  by (auto simp: onClose_def Let_def split: prod.splits option.splits
        dest: probes_insertData arg_cong [where f = "\<lambda>p. probes (snd p)"])

lemma onWriteSettled_frame [simp]:
  "processedContracts (onWriteSettled reply s) = processedContracts s"
  "probes (trace (onWriteSettled reply s)) = probes (trace s)"
  "handlers (onWriteSettled reply s) = handlers s"
  by (auto simp: onWriteSettled_def split: settled.splits option.splits)

lemma marked_frame:
  "processedContracts s' = processedContracts s \<Longrightarrow> marked s' = marked s"
  by (simp add: marked_def fun_eq_iff)

lemma once_frame:
  "processedContracts s' = processedContracts s \<Longrightarrow> probes (trace s') = probes (trace s) \<Longrightarrow>
   once s' = once s"
  using marked_frame [of s' s] by (simp add: once_def)

lemma once_spawnScorer [simp]: "once (spawnScorer h td s) = once s"
  by (rule once_frame) simp_all

lemma once_emit_log [simp]: "probes es = [] \<Longrightarrow> once (emit es s) = once s"
  by (rule once_frame) simp_all

lemma step_cases:
  obtains (frame) "processedContracts (step h ev s) = processedContracts s"
      "probes (trace (step h ev s)) = probes (trace s)"
  | (looped) c b txs s' where "step h ev s = loop c b txs s'"
      "processedContracts s' = processedContracts s" "probes (trace s') = probes (trace s)"
proof (cases ev)
  case (NewBlock c' n')
  then have "processedContracts (step h ev s) = processedContracts s"
      "probes (trace (step h ev s)) = probes (trace s)" by simp_all
  then show ?thesis by (rule frame)
next
  case ev: (BlockFetched i r)
  show ?thesis
  proof (cases "i < length (handlers s)")
    case False
    with ev have "step h ev s = s" by simp
    then show ?thesis by (intro frame) simp_all
  next
    case True
    show ?thesis
    proof (cases "handlers s ! i")
      case (AwaitCalls c' b' t' a' ts')
      with ev True have "step h ev s = s" by simp
      then show ?thesis by (intro frame) simp_all
    next
      case (AwaitBlock c' n')
      let ?s = "s\<lparr>handlers := delete_at i (handlers s)\<rparr>"
      from ev True AwaitBlock have st: "step h ev s = onBlockFetched c' r ?s" by simp
      show ?thesis
      proof (cases "\<exists>b txs. r = Fulfilled (Some b) \<and> transactions b = Some txs")
        case True
        then obtain b txs where "r = Fulfilled (Some b)" "transactions b = Some txs" by blast
        with st have "step h ev s = loop c' b txs ?s" by (simp add: onBlockFetched_def)
        then show ?thesis by (rule looped) simp_all
      next
        case False
        with st have "processedContracts (step h ev s) = processedContracts s"
          "probes (trace (step h ev s)) = probes (trace s)"
          by (auto simp: onBlockFetched_def split: settled.splits option.splits)
        then show ?thesis by (rule frame)
      qed
    qed
  qed
next
  case ev: (CallsSettled i rn rs rd)
  show ?thesis
  proof (cases "i < length (handlers s)")
    case False
    with ev have "step h ev s = s" by simp
    then show ?thesis by (intro frame) simp_all
  next
    case True
    show ?thesis
    proof (cases "handlers s ! i")
      case (AwaitBlock c' n')
      with ev True have "step h ev s = s" by simp
      then show ?thesis by (intro frame) simp_all
    next
      case (AwaitCalls c' b' t' a' ts')
      let ?s = "s\<lparr>handlers := delete_at i (handlers s)\<rparr>"
      let ?s' = "case tokenData h c' b' t' a' rn rs rd of None \<Rightarrow> ?s | Some td \<Rightarrow> spawnScorer h td ?s"
      from ev True AwaitCalls have "step h ev s = loop c' b' ts' ?s'"
        by (simp add: onCallsSettled_def)
      then show ?thesis by (rule looped) (simp_all split: option.splits)
    qed
  qed
next
  case (ChildClosed i rr re code)
  then have "processedContracts (step h ev s) = processedContracts s"
      "probes (trace (step h ev s)) = probes (trace s)" by simp_all
  then show ?thesis by (rule frame)
next
  case (WriteSettled i reply)
  then have "processedContracts (step h ev s) = processedContracts s"
      "probes (trace (step h ev s)) = probes (trace s)" by simp_all
  then show ?thesis by (rule frame)
qed

lemma once_step:
  assumes "once s"
  shows "once (step h ev s)"
proof (cases rule: step_cases [of h ev s])
  case frame
  from once_frame [OF frame] assms show ?thesis by simp
next
  case (looped c b txs s')
  from once_frame [OF looped(2,3)] assms have "once s'" by simp
  with looped(1) show ?thesis by (simp add: once_loop)
qed

lemma once_run: "once s \<Longrightarrow> once (run h evs s)"
  by (induction evs arbitrary: s) (simp_all add: run_def once_step)

lemma once_init: "once init"
  by (simp add: once_def init_def)

lemma marked_step:
  assumes "marked s c a"
  shows "marked (step h ev s) c a"
proof (cases rule: step_cases [of h ev s])
  case frame
  from marked_frame [OF frame(1)] assms show ?thesis by simp
next
  case (looped c' b txs s')
  from marked_frame [OF looped(2)] assms have "marked s' c a" by simp
  with looped(1) show ?thesis by (simp add: marked_loop)
qed

lemma count_step:
  assumes "marked s c a"
  shows "count_list (probes (trace (step h ev s))) (c, a) = count_list (probes (trace s)) (c, a)"
proof (cases rule: step_cases [of h ev s])
  case frame
  then show ?thesis by simp
next
  case (looped c' b txs s')
  from marked_frame [OF looped(2)] assms have "marked s' c a" by simp
  with looped show ?thesis by (simp add: count_loop)
qed

lemma marked_run: "marked s c a \<Longrightarrow> marked (run h evs s) c a"
  by (induction evs arbitrary: s) (simp_all add: run_def marked_step)

lemma count_run:
  "marked s c a \<Longrightarrow>
   count_list (probes (trace (run h evs s))) (c, a) = count_list (probes (trace s)) (c, a)"
proof (induction evs arbitrary: s)
  case Nil
  then show ?case by (simp add: run_def)
next
  case (Cons ev evs)
  from Cons.prems have "marked (step h ev s) c a" by (rule marked_step)
  from Cons.IH [OF this] count_step [OF Cons.prems, of h ev] show ?case
    by (simp add: run_def)
qed

lemma set_delete_at: "set (delete_at i xs) \<subseteq> set xs"
  unfolding delete_at_def using set_take_subset [of i xs] set_drop_subset [of "Suc i" xs] by auto

lemma marked_pc [simp]:
  "marked (s\<lparr>processedContracts := pc\<rparr>) c a = (case pc c of None \<Rightarrow> False | Some seen \<Rightarrow> a \<in> seen)"
  by (simp add: marked_def)

lemma pendingMarked_emit [simp]: "pendingMarked (emit es s) = pendingMarked s"
  by (simp add: pendingMarked_def)

lemma pendingMarked_loop:
  assumes "pendingMarked s"
  shows "pendingMarked (loop c b txs s)"
proof (cases rule: loop_cases [of c b txs s])
  case same
  with assms show ?thesis by simp
next
  case err
  with assms show ?thesis by simp
next
  case (probe pre t a ts seen)
  have "marked (loop c b txs s) c' a'" if "marked s c' a'" for c' a'
    using that by (rule marked_loop)
  with assms probe show ?thesis by (auto simp: pendingMarked_def)
qed

lemma pendingMarked_sub:
  "pendingMarked s \<Longrightarrow> set (handlers s') \<subseteq> set (handlers s) \<Longrightarrow>
   processedContracts s' = processedContracts s \<Longrightarrow> pendingMarked s'"
  using marked_frame [of s' s] unfolding pendingMarked_def by (metis subsetD)

lemma pendingMarked_step:
  assumes inv: "pendingMarked s"
  shows "pendingMarked (step h ev s)"
proof (cases ev)
  case (NewBlock c' n')
  with inv show ?thesis by (auto simp: pendingMarked_def marked_def)
next
  case ev: (BlockFetched i r)
  let ?s = "s\<lparr>handlers := delete_at i (handlers s)\<rparr>"
  have s: "pendingMarked ?s"
    using set_delete_at [of i "handlers s"] by (intro pendingMarked_sub [OF inv]) simp_all
  then have "pendingMarked (onBlockFetched c' r ?s)" for c'
    by (simp add: onBlockFetched_def pendingMarked_loop split: settled.splits option.splits)
  with ev inv show ?thesis by (simp split: handler.splits)
next
  case ev: (CallsSettled i rn rs rd)
  let ?s = "s\<lparr>handlers := delete_at i (handlers s)\<rparr>"
  have s: "pendingMarked ?s"
    using set_delete_at [of i "handlers s"] by (intro pendingMarked_sub [OF inv]) simp_all
  have "pendingMarked (spawnScorer h td ?s)" for td
    by (rule pendingMarked_sub [OF s]) simp_all
  with s have "pendingMarked (onCallsSettled h c' b' t' a' ts' rn rs rd ?s)" for c' b' t' a' ts'
    by (simp add: onCallsSettled_def pendingMarked_loop split: option.splits)
  with ev inv show ?thesis by (simp split: handler.splits)
next
  case ev: (ChildClosed i rr re code)
  let ?s = "s\<lparr>children := delete_at i (children s)\<rparr>"
  have "pendingMarked (onClose h td rr re code ?s)" for td
    by (rule pendingMarked_sub [OF inv]) simp_all
  with ev inv show ?thesis by simp
next
  case ev: (WriteSettled i reply)
  let ?s = "s\<lparr>writes := delete_at i (writes s)\<rparr>"
  have "pendingMarked (onWriteSettled reply ?s)"
    by (rule pendingMarked_sub [OF inv]) simp_all
  with ev inv show ?thesis by simp
qed

lemma pendingMarked_run: "pendingMarked s \<Longrightarrow> pendingMarked (run h evs s)"
  by (induction evs arbitrary: s) (simp_all add: run_def pendingMarked_step)

lemma pendingMarked_init: "pendingMarked init"
  by (simp add: pendingMarked_def init_def)

lemma shouldProcess_fresh:
  "pc N = Some seen \<Longrightarrow> A \<notin> seen \<Longrightarrow>
   shouldProcess N A pc = Some (True, pc(N \<mapsto> insert A seen))"
  by (simp add: shouldProcess_def)

lemma shouldProcess_marked:
  "marked s N A \<Longrightarrow> shouldProcess N A (processedContracts s) = Some (False, processedContracts s)"
  by (auto simp: shouldProcess_def marked_def split: option.splits)

lemma count_le_1_distinct: "distinct xs \<Longrightarrow> count_list xs x \<le> 1"
  by (induction xs) auto

lemmas evaluate =
  run_def init_def NETWORKS_def run_listener_js_def init_listener_js_def NETWORKS_listener_js_def
  exampleBlock_def exampleTx_def delete_at_def created_def shouldProcess_def marked_def
  onBlockFetched_def onCallsSettled_def onBlockFetched_listener_js_def
  onCallsSettled_listener_js_def tokenData_def candidates_def

subsection \<open>Deduplication\<close>

text \<open>
  Claim C1, for the listener of \<^verbatim>\<open>src/unnamed/part_000\<close>. On a network \<open>N\<close> that has its
  set, the check of an address \<open>A\<close> that is not in the set answers true and puts \<open>A\<close> in
  the set. From a state in which \<open>A\<close> is in the set of \<open>N\<close>, whatever events follow, the
  check answers false and changes nothing. In every run from the initial state, under
  every interleaving of the handlers, the contract \<open>A\<close> is read on \<open>N\<close> at most once,
  however many blocks it appears in.
\<close>

theorem dedup_check_once:
  "(processedContracts s N = Some seen \<and> A \<notin> seen \<longrightarrow>
      shouldProcess N A (processedContracts s) =
        Some (True, (processedContracts s)(N \<mapsto> insert A seen)) \<and>
      (\<forall>s'. processedContracts s' = (processedContracts s)(N \<mapsto> insert A seen) \<longrightarrow>
         marked s' N A)) \<and>
   (marked s' N A \<longrightarrow>
      shouldProcess N A (processedContracts (run h evs s')) =
        Some (False, processedContracts (run h evs s'))) \<and>
   count_list (probes (trace (run h evs init))) (N, A) \<le> 1"
proof (intro conjI impI allI)
  assume "processedContracts s N = Some seen \<and> A \<notin> seen"
  then show "shouldProcess N A (processedContracts s) =
      Some (True, (processedContracts s)(N \<mapsto> insert A seen))"
    by (simp add: shouldProcess_fresh)
next
  fix s'' :: state
  assume "processedContracts s'' = (processedContracts s)(N \<mapsto> insert A seen)"
  then show "marked s'' N A" by (simp add: marked_def)
next
  assume "marked s' N A"
  then have "marked (run h evs s') N A" by (rule marked_run)
  then show "shouldProcess N A (processedContracts (run h evs s')) =
      Some (False, processedContracts (run h evs s'))"
    by (rule shouldProcess_marked)
next
  have "once (run h evs init)" using once_init by (rule once_run)
  then have "distinct (probes (trace (run h evs init)))" by (simp add: once_def)
  then show "count_list (probes (trace (run h evs init))) (N, A) \<le> 1"
    by (rule count_le_1_distinct)
qed

text \<open>
  The contract \<open>0xAAA\<close> is deployed in a block on \<open>ethereum\<close>, its reads fail, and the
  same block is delivered again: the first check is true, the later one false.
\<close>

theorem dedup_check_once_witness:
  "processedContracts init ''ethereum'' = Some {} \<and> ''0xAAA'' \<notin> ({} :: address set) \<and>
   shouldProcess ''ethereum'' ''0xAAA'' (processedContracts init) =
     Some (True, (processedContracts init)(''ethereum'' \<mapsto> {''0xAAA''})) \<and>
   marked (run exampleHost
       [NewBlock ''ethereum'' 1, BlockFetched 0 (Fulfilled (Some exampleBlock))] init)
     ''ethereum'' ''0xAAA'' \<and>
   fst (the (shouldProcess ''ethereum'' ''0xAAA'' (processedContracts (run exampleHost
       [CallsSettled 0 Rejected Rejected Rejected,
        NewBlock ''ethereum'' 2, BlockFetched 0 (Fulfilled (Some exampleBlock))]
       (run exampleHost
          [NewBlock ''ethereum'' 1, BlockFetched 0 (Fulfilled (Some exampleBlock))] init)))))
     = False \<and>
   count_list (probes (trace (run exampleHost
       [NewBlock ''ethereum'' 1, BlockFetched 0 (Fulfilled (Some exampleBlock)),
        CallsSettled 0 Rejected Rejected Rejected,
        NewBlock ''ethereum'' 2, BlockFetched 0 (Fulfilled (Some exampleBlock))] init)))
     (''ethereum'', ''0xAAA'') \<le> 1"
proof -
  have one: "processedContracts init ''ethereum'' = Some {} \<and> ''0xAAA'' \<notin> ({} :: address set)"
    by (simp add: evaluate)
  have two: "marked (run exampleHost
       [NewBlock ''ethereum'' 1, BlockFetched 0 (Fulfilled (Some exampleBlock))] init)
     ''ethereum'' ''0xAAA''"
    by (simp add: evaluate)
  from dedup_check_once [of init "''ethereum''" "{}" "''0xAAA''"
      "run exampleHost [NewBlock ''ethereum'' 1, BlockFetched 0 (Fulfilled (Some exampleBlock))] init"
      exampleHost
      "[CallsSettled 0 Rejected Rejected Rejected,
        NewBlock ''ethereum'' 2, BlockFetched 0 (Fulfilled (Some exampleBlock))]"]
    dedup_check_once [of init "''ethereum''" "{}" "''0xAAA''" init exampleHost
      "[NewBlock ''ethereum'' 1, BlockFetched 0 (Fulfilled (Some exampleBlock)),
        CallsSettled 0 Rejected Rejected Rejected,
        NewBlock ''ethereum'' 2, BlockFetched 0 (Fulfilled (Some exampleBlock))]"]
    one two
  show ?thesis by simp
qed

text \<open>
  The listener of \<^verbatim>\<open>src/listener.js\<close> has no check: under the same events it reads the
  contract once for each block that deploys it.
\<close>

theorem listener_js_reads_twice:
  "count_list (probes (trace (run_listener_js exampleHost
       [NewBlock ''ethereum'' 1, BlockFetched 0 (Fulfilled (Some exampleBlock)),
        CallsSettled 0 Rejected Rejected Rejected,
        NewBlock ''ethereum'' 2, BlockFetched 0 (Fulfilled (Some exampleBlock))]
       init_listener_js)))
     (''ethereum'', ''0xAAA'') = 2"
  by (simp add: evaluate)

text \<open>
  Claim C10. In the segment of the loop that issues the three reads of a fresh address
  \<open>A\<close>, the address has gone into the set of the network before the handler waits for
  the reads. In every state a run reaches, a handler that waits for the reads of \<open>A\<close> on
  \<open>N\<close> finds \<open>A\<close> marked. Once \<open>A\<close> is marked on \<open>N\<close> it stays marked and is read no
  more, whatever events follow: reads that fail, later blocks that deploy \<open>A\<close> again.
\<close>

theorem marked_before_reads_never_again:
  "(created t = Some A \<and> processedContracts s N = Some seen \<and> A \<notin> seen \<longrightarrow>
      loop N b (t # ts) s =
        s\<lparr>processedContracts := (processedContracts s)(N \<mapsto> insert A seen),
          handlers := handlers s @ [AwaitCalls N b t A ts],
          trace := trace s @ [ContractCalls N A]\<rparr> \<and>
      marked (loop N b (t # ts) s) N A) \<and>
   (AwaitCalls N b t A ts \<in> set (handlers (run h evs init)) \<longrightarrow> marked (run h evs init) N A) \<and>
   (marked s' N A \<longrightarrow>
      marked (run h evs s') N A \<and>
      count_list (probes (trace (run h evs s'))) (N, A) = count_list (probes (trace s')) (N, A))"
proof (intro conjI impI)
  assume a: "created t = Some A \<and> processedContracts s N = Some seen \<and> A \<notin> seen"
  then show eq: "loop N b (t # ts) s =
        s\<lparr>processedContracts := (processedContracts s)(N \<mapsto> insert A seen),
          handlers := handlers s @ [AwaitCalls N b t A ts],
          trace := trace s @ [ContractCalls N A]\<rparr>"
    by (simp add: shouldProcess_def)
  from a show "marked (loop N b (t # ts) s) N A"
    unfolding eq by simp
next
  have "pendingMarked (run h evs init)" using pendingMarked_init by (rule pendingMarked_run)
  moreover assume "AwaitCalls N b t A ts \<in> set (handlers (run h evs init))"
  ultimately show "marked (run h evs init) N A" unfolding pendingMarked_def by blast
next
  assume "marked s' N A"
  then show "marked (run h evs s') N A" by (rule marked_run)
next
  assume "marked s' N A"
  then show "count_list (probes (trace (run h evs s'))) (N, A) = count_list (probes (trace s')) (N, A)"
    by (rule count_run)
qed

text \<open>
  The reads of \<open>0xAAA\<close> fail and the block that deploys it comes again: one read in all.
\<close>

theorem marked_before_reads_never_again_witness:
  "created exampleTx = Some ''0xAAA'' \<and> processedContracts init ''ethereum'' = Some {} \<and>
   ''0xAAA'' \<notin> ({} :: address set) \<and>
   marked (loop ''ethereum'' exampleBlock [exampleTx] init) ''ethereum'' ''0xAAA'' \<and>
   AwaitCalls ''ethereum'' exampleBlock exampleTx ''0xAAA'' []
     \<in> set (handlers (run exampleHost
         [NewBlock ''ethereum'' 1, BlockFetched 0 (Fulfilled (Some exampleBlock))] init)) \<and>
   marked (run exampleHost
       [NewBlock ''ethereum'' 1, BlockFetched 0 (Fulfilled (Some exampleBlock))] init)
     ''ethereum'' ''0xAAA'' \<and>
   count_list (probes (trace (run exampleHost
       [CallsSettled 0 Rejected Rejected Rejected,
        NewBlock ''ethereum'' 2, BlockFetched 0 (Fulfilled (Some exampleBlock))]
       (run exampleHost
          [NewBlock ''ethereum'' 1, BlockFetched 0 (Fulfilled (Some exampleBlock))] init))))
     (''ethereum'', ''0xAAA'') = 1"
proof -
  let ?s = "run exampleHost
       [NewBlock ''ethereum'' 1, BlockFetched 0 (Fulfilled (Some exampleBlock))] init"
  have one: "created exampleTx = Some ''0xAAA'' \<and> processedContracts init ''ethereum'' = Some {} \<and>
      ''0xAAA'' \<notin> ({} :: address set)"
    by (simp add: evaluate)
  have two: "AwaitCalls ''ethereum'' exampleBlock exampleTx ''0xAAA'' [] \<in> set (handlers ?s)"
    by (simp add: evaluate)
  have three: "count_list (probes (trace ?s)) (''ethereum'', ''0xAAA'') = 1"
    by (simp add: evaluate)
  from marked_before_reads_never_again [of exampleTx "''0xAAA''" init "''ethereum''" "{}"
      exampleBlock "[]" exampleHost
      "[NewBlock ''ethereum'' 1, BlockFetched 0 (Fulfilled (Some exampleBlock))]" ?s]
    one two
  have m: "marked (loop ''ethereum'' exampleBlock [exampleTx] init) ''ethereum'' ''0xAAA'' \<and>
      marked ?s ''ethereum'' ''0xAAA''"
    by simp
  from marked_before_reads_never_again [of exampleTx "''0xAAA''" init "''ethereum''" "{}"
      exampleBlock "[]" exampleHost
      "[CallsSettled 0 Rejected Rejected Rejected,
        NewBlock ''ethereum'' 2, BlockFetched 0 (Fulfilled (Some exampleBlock))]" ?s]
    m three one two
  show ?thesis by simp
qed

subsection \<open>The block processor\<close>

lemma spawnScorer_listener_js_simps [simp]:
  "trace (spawnScorer_listener_js h td s) = trace s @
     [ConsoleLog ''New ERC20 token detected:'', Spawn ''python'' [''risk_assessment_bridge.py''],
      StdinWrite (JSON_stringify h (JObject td))]"
  "processedContracts (spawnScorer_listener_js h td s) = processedContracts s"
  "handlers (spawnScorer_listener_js h td s) = handlers s"
  "children (spawnScorer_listener_js h td s) = children s @ [td]"
  "writes (spawnScorer_listener_js h td s) = writes s"
  by (simp_all add: spawnScorer_listener_js_def)

lemma loop_listener_js_skip:
  "\<forall>t \<in> set pre. created t = None \<Longrightarrow>
   loop_listener_js c b (pre @ ts) s = loop_listener_js c b ts s"
  by (induction pre) simp_all


lemma candidates_split:
  "candidates txs = [] \<or>
   (\<exists>pre t ts. txs = pre @ t # ts \<and> (\<forall>t \<in> set pre. created t = None) \<and> created t \<noteq> None)"
proof (induction txs)
  case Nil
  then show ?case by (simp add: candidates_def)
next
  case (Cons t ts)
  show ?case
  proof (cases "created t")
    case (Some a)
    have "t # ts = [] @ t # ts \<and> (\<forall>t \<in> set []. created t = None) \<and> created t \<noteq> None"
      using Some by simp
    then show ?thesis by blast
  next
    case None
    from Cons.IH show ?thesis
    proof
      assume "candidates ts = []"
      with None show ?thesis by (simp add: candidates_def)
    next
      assume "\<exists>pre t' ts'. ts = pre @ t' # ts' \<and> (\<forall>t \<in> set pre. created t = None) \<and> created t' \<noteq> None"
      then obtain pre t' ts' where "ts = pre @ t' # ts'" "\<forall>t \<in> set pre. created t = None"
        "created t' \<noteq> None" by blast
      with None have "t # ts = (t # pre) @ t' # ts' \<and> (\<forall>t \<in> set (t # pre). created t = None) \<and>
        created t' \<noteq> None" by simp
      then show ?thesis by blast
    qed
  qed
qed

lemma candidates_none: "candidates txs = [] \<Longrightarrow> \<forall>t \<in> set txs. created t = None"
  by (auto simp: candidates_def filter_empty_conv)

lemma loop_listener_js_none: "candidates txs = [] \<Longrightarrow> loop_listener_js c b txs s = s"
  using loop_listener_js_skip [of txs c b "[]" s] candidates_none [of txs] by simp


lemma loop_listener_js_cases:
  obtains (same) "loop_listener_js c b txs s = s"
  | (probe) pre t a ts where "txs = pre @ t # ts" "\<forall>t \<in> set pre. created t = None"
      "created t = Some a"
      "loop_listener_js c b txs s =
         s\<lparr>handlers := handlers s @ [AwaitCalls c b t a ts],
           trace := trace s @ [ContractCalls c a]\<rparr>"
proof -
  from candidates_split [of txs] show ?thesis
  proof
    assume "candidates txs = []"
    then show ?thesis by (intro same loop_listener_js_none)
  next
    assume "\<exists>pre t ts. txs = pre @ t # ts \<and> (\<forall>t \<in> set pre. created t = None) \<and> created t \<noteq> None"
    then obtain pre t ts a where *: "txs = pre @ t # ts" "\<forall>t \<in> set pre. created t = None"
      "created t = Some a" by blast
    then have "loop_listener_js c b txs s = loop_listener_js c b (t # ts) s"
      by (simp add: loop_listener_js_skip)
    with * have "loop_listener_js c b txs s =
         s\<lparr>handlers := handlers s @ [AwaitCalls c b t a ts],
           trace := trace s @ [ContractCalls c a]\<rparr>" by simp
    with * show ?thesis by (rule probe)
  qed
qed

lemma loop_frame:
  "children (loop c b txs s) = children s"
  "writes (loop c b txs s) = writes s"
  "filter downstream (trace (loop c b txs s)) = filter downstream (trace s)"
proof -
  show "children (loop c b txs s) = children s"
    by (cases rule: loop_cases [of c b txs s]) simp_all
  show "writes (loop c b txs s) = writes s"
    by (cases rule: loop_cases [of c b txs s]) simp_all
  show "filter downstream (trace (loop c b txs s)) = filter downstream (trace s)"
    by (cases rule: loop_cases [of c b txs s]) simp_all
qed

lemma loop_listener_js_frame:
  "children (loop_listener_js c b txs s) = children s"
  "writes (loop_listener_js c b txs s) = writes s"
  "filter downstream (trace (loop_listener_js c b txs s)) = filter downstream (trace s)"
proof -
  show "children (loop_listener_js c b txs s) = children s"
    by (cases rule: loop_listener_js_cases [of c b txs s]) simp_all
  show "writes (loop_listener_js c b txs s) = writes s"
    by (cases rule: loop_listener_js_cases [of c b txs s]) simp_all
  show "filter downstream (trace (loop_listener_js c b txs s)) = filter downstream (trace s)"
    by (cases rule: loop_listener_js_cases [of c b txs s]) simp_all
qed

lemma Promise_all_Rejected:
  "(Promise_all rn rs rd = Rejected) = (rn = Rejected \<or> rs = Rejected \<or> rd = Rejected)"
  by (cases rn; cases rs; cases rd) simp_all

lemma run_Nil [simp]: "run h [] s = s"
  by (simp add: run_def)

lemma run_Cons [simp]: "run h (ev # evs) s = run h evs (step h ev s)"
  by (simp add: run_def)

lemma run_listener_js_Nil [simp]: "run_listener_js h [] s = s"
  by (simp add: run_listener_js_def)

lemma run_listener_js_Cons [simp]:
  "run_listener_js h (ev # evs) s = run_listener_js h evs (step_listener_js h ev s)"
  by (simp add: run_listener_js_def)














subsection \<open>Verification\<close>

text \<open>
  Claim C3, for both listeners. When one of the reads \<^verbatim>\<open>name()\<close>, \<^verbatim>\<open>symbol()\<close>,
  \<^verbatim>\<open>decimals()\<close> fails, the handler goes on to the next transaction of the block as if
  the candidate had not been there: the state is the one the loop reaches from the
  state before, no scorer is started, no call of the datastore is pending, and the
  trace holds no new line, write or call of the later stages.
\<close>

theorem failed_read_drops_candidate:
  "rn = Rejected \<or> rs = Rejected \<or> rd = Rejected \<Longrightarrow>
   onCallsSettled h c b t a ts rn rs rd s = loop c b ts s \<and>
   children (onCallsSettled h c b t a ts rn rs rd s) = children s \<and>
   writes (onCallsSettled h c b t a ts rn rs rd s) = writes s \<and>
   filter downstream (trace (onCallsSettled h c b t a ts rn rs rd s)) = filter downstream (trace s) \<and>
   onCallsSettled_listener_js h c b t a ts rn rs rd s = loop_listener_js c b ts s \<and>
   children (onCallsSettled_listener_js h c b t a ts rn rs rd s) = children s \<and>
   writes (onCallsSettled_listener_js h c b t a ts rn rs rd s) = writes s \<and>
   filter downstream (trace (onCallsSettled_listener_js h c b t a ts rn rs rd s)) =
     filter downstream (trace s)"
proof -
  assume "rn = Rejected \<or> rs = Rejected \<or> rd = Rejected"
  then have "Promise_all rn rs rd = Rejected" by (simp add: Promise_all_Rejected)
  then have "tokenData h c b t a rn rs rd = None" by (simp add: tokenData_def)
  then have "onCallsSettled h c b t a ts rn rs rd s = loop c b ts s"
    "onCallsSettled_listener_js h c b t a ts rn rs rd s = loop_listener_js c b ts s"
    by (simp_all add: onCallsSettled_def onCallsSettled_listener_js_def)
  then show ?thesis by (simp add: loop_frame loop_listener_js_frame)
qed

theorem failed_read_drops_candidate_witness:
  "((Fulfilled ''Foo'' :: string settled) = Rejected \<or> (Rejected :: string settled) = Rejected \<or>
    Fulfilled (JNumber (Fin 18)) = Rejected) \<and>
   onCallsSettled exampleHost ''ethereum'' exampleBlock exampleTx ''0xAAA'' []
     (Fulfilled ''Foo'') Rejected (Fulfilled (JNumber (Fin 18))) init = init \<and>
   onCallsSettled_listener_js exampleHost ''ethereum'' exampleBlock exampleTx ''0xAAA'' []
     (Fulfilled ''Foo'') Rejected (Fulfilled (JNumber (Fin 18))) init_listener_js = init_listener_js"
  using failed_read_drops_candidate [of "Fulfilled ''Foo''" Rejected "Fulfilled (JNumber (Fin 18))"
      exampleHost "''ethereum''" exampleBlock exampleTx "''0xAAA''" "[]" init]
    failed_read_drops_candidate [of "Fulfilled ''Foo''" Rejected "Fulfilled (JNumber (Fin 18))"
      exampleHost "''ethereum''" exampleBlock exampleTx "''0xAAA''" "[]" init_listener_js]
  by simp

subsection \<open>The close handler of the scorer\<close>

lemma trim_Nil [simp]: "trim [] = []"
  by (simp add: trim_def)




lemma null_verdict:
  "trim riskResult \<noteq> [] \<Longrightarrow> JSON_parse h riskResult = Some (JArray (JNull # vs)) \<Longrightarrow>
   onClose h td riskResult riskError code s =
     emit ((if riskError \<noteq> [] then [ConsoleLog ''Python stderr output:''] else []) @
           [ConsoleLog ''Risk Assessment:'', ConsoleError ''Supabase insert exception:'']) s"
  by (auto simp: onClose_def parseRisk_def insertData_def assessment_of_def emit_def)

lemma exampleToken:
  "tokenData exampleHost ''ethereum'' exampleBlock exampleTx ''0xAAA''
     (Fulfilled ''Foo'') (Fulfilled ''FOO'') (Fulfilled (JNumber (Fin 18))) = Some exampleToken"
  by code_simp






text \<open>
  Claim C5, at the output \<^verbatim>\<open>[null]\<close> of the scorer. The text parses, its first element
  is taken as the verdict, the read of its \<open>risk_category\<close> throws, and the \<^verbatim>\<open>catch\<close> of
  line 192 logs the exception: the datastore is never called for the token.
\<close>

theorem null_verdict_not_persisted:
  "trace (run exampleHost
     [NewBlock ''ethereum'' 1, BlockFetched 0 (Fulfilled (Some exampleBlock)),
      CallsSettled 0 (Fulfilled ''Foo'') (Fulfilled ''FOO'') (Fulfilled (JNumber (Fin 18))),
      ChildClosed 0 ''[null]'' [] (Some 0)] init) =
   [ContractCalls ''ethereum'' ''0xAAA'',
    ConsoleLog ''New ERC20 token detected:'',
    Spawn ''python'' [''risk_assessment_bridge.py''],
    StdinWrite ''[{\"contract_address\":\"0xAAA\",\"creator_address\":\"0xF00\",\"created_block_timestamp\":\"2023-11-14T22:13:20.000Z\",\"name\":\"Foo\",\"symbol\":\"FOO\",\"decimals\":18,\"blockchain\":\"ethereum\"}]'',
    ConsoleLog ''Risk Assessment:'',
    ConsoleError ''Supabase insert exception:'']"
  by code_simp

text \<open>
  Output that does not parse, and blank output with any exit status, leave the token
  data to be upserted as it is.
\<close>

lemma requests_parseRisk [simp]: "requests (snd (parseRisk h riskResult code)) = []"
  by (simp add: parseRisk_def split: option.splits)

lemma unparseable_still_upserted:
  assumes "JSON_parse h riskResult = None"
  shows "requests (trace (onClose h td riskResult riskError code s)) =
     requests (trace s) @ [Upsert [JObject td] ''contract_address,blockchain'']"
proof -
  obtain ra lg where p: "parseRisk h riskResult code = (ra, lg)" by (cases "parseRisk h riskResult code")
  with assms have ra: "ra = JNull" by (auto simp: parseRisk_def split: if_splits)
  from p requests_parseRisk [of h riskResult code] have lg: "requests lg = []" by simp
  from ra have "insertData h td ra = Some (td, [])" by (simp add: insertData_def assessment_of_def)
  with p lg show ?thesis by (simp add: onClose_def)
qed

lemma blank_still_upserted:
  assumes "trim riskResult = []"
  shows "requests (trace (onClose h td riskResult riskError code s)) =
     requests (trace s) @ [Upsert [JObject td] ''contract_address,blockchain'']"
proof -
  obtain ra lg where p: "parseRisk h riskResult code = (ra, lg)" by (cases "parseRisk h riskResult code")
  with assms have ra: "ra = JNull" by (auto simp: parseRisk_def split: if_splits)
  from p requests_parseRisk [of h riskResult code] have lg: "requests lg = []" by simp
  from ra have "insertData h td ra = Some (td, [])" by (simp add: insertData_def assessment_of_def)
  with p lg show ?thesis by (simp add: onClose_def)
qed

subsection \<open>Decimals\<close>

text \<open>
  A BigInt up to \<open>2 ^ 53 - 1\<close> in size, the largest safe integer of the language, is
  converted exactly. The first integer beyond \<open>2 ^ 53\<close> is not.
\<close>

lemma Number_BigInt_exact: "\<bar>v\<bar> \<le> 2 ^ 53 - 1 \<Longrightarrow> Number_BigInt v = Fin (of_int v)"
proof -
  assume "\<bar>v\<bar> \<le> 2 ^ 53 - 1"
  then have "\<bar>v\<bar> < 2 ^ nat 53" by simp
  then have "bitlen \<bar>v\<bar> \<le> 53" by (simp add: bitlen_le_iff_power)
  then show ?thesis by (simp add: Number_BigInt_def Let_def)
qed

lemma Number_BigInt_rounds: "Number_BigInt (2 ^ 53 + 1) = Fin (2 ^ 53)"
  by code_simp

text \<open>
  Claim C8, for both listeners, which share the code. A \<open>decimals\<close> value that is a
  number goes into the record as it is. One that is a BigInt within the safe integers,
  where every value of the declared return type \<^verbatim>\<open>uint8\<close> lies, becomes the number of the
  same value. When the three reads succeed, the \<open>decimals\<close> column of the token data is
  the value so normalised.
\<close>

theorem decimals_normalised:
  "safeDecimals (JNumber n) = JNumber n \<and>
   (\<bar>v\<bar> \<le> 2 ^ 53 - 1 \<longrightarrow> safeDecimals (JBigInt v) = JNumber (Fin (of_int v))) \<and>
   (toISOString h (timestamp b * 1000) = Some dt \<longrightarrow>
      (\<exists>td. tokenData h c b t a (Fulfilled name) (Fulfilled symbol) (Fulfilled decimals) = Some td \<and>
         map_of td ''decimals'' = Some (safeDecimals decimals)))"
  by (simp add: safeDecimals_def Number_BigInt_exact tokenData_def)

theorem decimals_normalised_witness:
  "\<bar>18 :: int\<bar> \<le> 2 ^ 53 - 1 \<and> safeDecimals (JBigInt 18) = JNumber (Fin 18) \<and>
   toISOString exampleHost (timestamp exampleBlock * 1000) = Some ''2023-11-14T22:13:20.000Z'' \<and>
   (\<exists>td. tokenData exampleHost ''ethereum'' exampleBlock exampleTx ''0xAAA''
        (Fulfilled ''Foo'') (Fulfilled ''FOO'') (Fulfilled (JBigInt 18)) = Some td \<and>
      map_of td ''decimals'' = Some (JNumber (Fin 18)))"
proof -
  have p1: "\<bar>18 :: int\<bar> \<le> 2 ^ 53 - 1" by simp
  have p2: "toISOString exampleHost (timestamp exampleBlock * 1000) = Some ''2023-11-14T22:13:20.000Z''"
    by code_simp
  note inst = decimals_normalised [of "Fin 18" 18 exampleHost exampleBlock
      "''2023-11-14T22:13:20.000Z''" "''ethereum''" exampleTx "''0xAAA''" "''Foo''" "''FOO''"
      "JBigInt 18"]
  from inst p1 have c1: "safeDecimals (JBigInt 18) = JNumber (Fin 18)" by simp
  from inst p2 have "\<exists>td. tokenData exampleHost ''ethereum'' exampleBlock exampleTx ''0xAAA''
        (Fulfilled ''Foo'') (Fulfilled ''FOO'') (Fulfilled (JBigInt 18)) = Some td \<and>
      map_of td ''decimals'' = Some (safeDecimals (JBigInt 18))"
    by (elim conjE) (erule mp, rule p2)
  then have c2: "\<exists>td. tokenData exampleHost ''ethereum'' exampleBlock exampleTx ''0xAAA''
        (Fulfilled ''Foo'') (Fulfilled ''FOO'') (Fulfilled (JBigInt 18)) = Some td \<and>
      map_of td ''decimals'' = Some (JNumber (Fin 18))"
    unfolding c1 .
  show ?thesis by (intro conjI p1 c1 p2 c2)
qed

subsection \<open>The request to the scorer\<close>

lemma stdinTexts_append [simp]: "stdinTexts (xs @ ys) = stdinTexts xs @ stdinTexts ys"
  by (induction xs rule: stdinTexts.induct) auto

lemma tokenData_fields: "tokenData h c b t a rn rs rd = Some td \<Longrightarrow> map fst td = tokenFacts"
  by (auto simp: tokenData_def tokenFacts_def split: settled.splits option.splits)

lemma stdinTexts_loop [simp]: "stdinTexts (trace (loop c b txs s)) = stdinTexts (trace s)"
  by (cases rule: loop_cases [of c b txs s]) simp_all

lemma stdinTexts_parseRisk [simp]: "stdinTexts (snd (parseRisk h riskResult code)) = []"
  by (simp add: parseRisk_def split: option.splits)

lemma stdinTexts_insertData:
  "insertData h td ra = Some (row, logged) \<Longrightarrow> stdinTexts logged = []"
  by (auto simp: insertData_def split: option.splits Option.bind_splits)

lemma stdinTexts_onClose [simp]:
  "stdinTexts (trace (onClose h td riskResult riskError code s)) = stdinTexts (trace s)"
proof -
  obtain ra lg where p: "parseRisk h riskResult code = (ra, lg)" by (cases "parseRisk h riskResult code")
  have lg: "stdinTexts lg = []" using stdinTexts_parseRisk [of h riskResult code] p by simp
  show ?thesis
  proof (cases "insertData h td ra")
    case None
    then show ?thesis by (simp add: onClose_def p lg)
  next
    case (Some r)
    obtain row lg' where r: "r = (row, lg')" by (cases r)
    with Some have "stdinTexts lg' = []" by (auto dest: stdinTexts_insertData)
    with Some r show ?thesis by (simp add: onClose_def p lg)
  qed
qed

lemma stdinTexts_onWriteSettled [simp]:
  "stdinTexts (trace (onWriteSettled reply s)) = stdinTexts (trace s)"
  by (auto simp: onWriteSettled_def split: settled.splits option.splits)

lemma stdinTexts_onBlockFetched [simp]:
  "stdinTexts (trace (onBlockFetched c r s)) = stdinTexts (trace s)"
  by (simp add: onBlockFetched_def split: settled.splits option.splits)

lemma stdinTexts_onCallsSettled:
  "stdinTexts (trace (onCallsSettled h c b t a ts rn rs rd s)) =
     stdinTexts (trace s) @
     (case tokenData h c b t a rn rs rd of None \<Rightarrow> []
      | Some td \<Rightarrow> [JSON_stringify h (JArray [JObject td])])"
  by (simp add: onCallsSettled_def split: option.splits)

lemma arrayOfOne_step:
  assumes "\<forall>w \<in> set (stdinTexts (trace s)). arrayOfOne h w"
  shows "\<forall>w \<in> set (stdinTexts (trace (step h ev s))). arrayOfOne h w"
proof (cases ev)
  case (NewBlock c' n')
  with assms show ?thesis by simp
next
  case (BlockFetched i r)
  with assms show ?thesis by (simp split: handler.splits)
next
  case ev: (CallsSettled i rn rs rd)
  have "\<forall>w \<in> set (stdinTexts (trace (onCallsSettled h c b t a ts rn rs rd s'))). arrayOfOne h w"
    if eq: "stdinTexts (trace s') = stdinTexts (trace s)" for c b t a ts s'
  proof (cases "tokenData h c b t a rn rs rd")
    case None
    with assms eq show ?thesis by (simp add: stdinTexts_onCallsSettled)
  next
    case (Some td)
    then have "map fst td = tokenFacts" by (rule tokenData_fields)
    then have "arrayOfOne h (JSON_stringify h (JArray [JObject td]))"
      unfolding arrayOfOne_def by blast
    with assms eq Some show ?thesis by (simp add: stdinTexts_onCallsSettled)
  qed
  note general = this
  have "\<forall>w \<in> set (stdinTexts (trace (onCallsSettled h c b t a ts rn rs rd
      (s\<lparr>handlers := H\<rparr>)))). arrayOfOne h w" for c b t a ts H
    by (rule general) simp
  with ev assms show ?thesis by (simp split: handler.splits)
next
  case (ChildClosed i rr re code)
  with assms show ?thesis by simp
next
  case (WriteSettled i reply)
  with assms show ?thesis by simp
qed

lemma arrayOfOne_run:
  "\<forall>w \<in> set (stdinTexts (trace s)). arrayOfOne h w \<Longrightarrow>
   \<forall>w \<in> set (stdinTexts (trace (run h evs s))). arrayOfOne h w"
proof (induction evs arbitrary: s)
  case Nil
  then show ?case by simp
next
  case (Cons ev evs)
  from Cons.prems have "\<forall>w \<in> set (stdinTexts (trace (step h ev s))). arrayOfOne h w"
    by (rule arrayOfOne_step)
  then show ?case using Cons.IH by simp
qed

text \<open>
  Claim C9, for the listener of \<^verbatim>\<open>src/unnamed/part_000\<close>. In every run from the initial
  state, every text written to the standard input of the scorer is the JSON text of an
  array of exactly one object, whose properties are the seven token facts.
\<close>

theorem scorer_reads_array_of_one:
  "\<forall>w \<in> set (stdinTexts (trace (run h evs init))).
     \<exists>td. map fst td = tokenFacts \<and> w = JSON_stringify h (JArray [JObject td])"
  using arrayOfOne_run [of init h evs] by (simp add: arrayOfOne_def init_def)

theorem scorer_reads_array_of_one_witness:
  "stdinTexts (trace (run exampleHost
     [NewBlock ''ethereum'' 1, BlockFetched 0 (Fulfilled (Some exampleBlock)),
      CallsSettled 0 (Fulfilled ''Foo'') (Fulfilled ''FOO'') (Fulfilled (JNumber (Fin 18)))] init)) =
     [''[{\"contract_address\":\"0xAAA\",\"creator_address\":\"0xF00\",\"created_block_timestamp\":\"2023-11-14T22:13:20.000Z\",\"name\":\"Foo\",\"symbol\":\"FOO\",\"decimals\":18,\"blockchain\":\"ethereum\"}]''] \<and>
   (\<exists>td. map fst td = tokenFacts \<and>
      ''[{\"contract_address\":\"0xAAA\",\"creator_address\":\"0xF00\",\"created_block_timestamp\":\"2023-11-14T22:13:20.000Z\",\"name\":\"Foo\",\"symbol\":\"FOO\",\"decimals\":18,\"blockchain\":\"ethereum\"}]'' =
      JSON_stringify exampleHost (JArray [JObject td]))"
proof -
  let ?evs = "[NewBlock ''ethereum'' 1, BlockFetched 0 (Fulfilled (Some exampleBlock)),
      CallsSettled 0 (Fulfilled ''Foo'') (Fulfilled ''FOO'') (Fulfilled (JNumber (Fin 18)))]"
  let ?w = "''[{\"contract_address\":\"0xAAA\",\"creator_address\":\"0xF00\",\"created_block_timestamp\":\"2023-11-14T22:13:20.000Z\",\"name\":\"Foo\",\"symbol\":\"FOO\",\"decimals\":18,\"blockchain\":\"ethereum\"}]''"
  have p: "stdinTexts (trace (run exampleHost ?evs init)) = [?w]"
    by code_simp
  then have "?w \<in> set (stdinTexts (trace (run exampleHost ?evs init)))" by simp
  with scorer_reads_array_of_one [of exampleHost ?evs]
  have "\<exists>td. map fst td = tokenFacts \<and> ?w = JSON_stringify exampleHost (JArray [JObject td])"
    by (rule bspec)
  with p show ?thesis by (rule conjI)
qed

text \<open>
  The listener of \<^verbatim>\<open>src/listener.js\<close> writes the object itself: the text starts with a
  brace, not with a bracket.
\<close>

theorem listener_js_writes_bare_object:
  "stdinTexts (trace (run_listener_js exampleHost
     [NewBlock ''ethereum'' 1, BlockFetched 0 (Fulfilled (Some exampleBlock)),
      CallsSettled 0 (Fulfilled ''Foo'') (Fulfilled ''FOO'') (Fulfilled (JNumber (Fin 18)))]
     init_listener_js)) =
     [''{\"contract_address\":\"0xAAA\",\"creator_address\":\"0xF00\",\"created_block_timestamp\":\"2023-11-14T22:13:20.000Z\",\"name\":\"Foo\",\"symbol\":\"FOO\",\"decimals\":18,\"blockchain\":\"ethereum\"}'']"
  by code_simp

subsection \<open>Persistence\<close>

lemma splitOn_uniqueKey: "splitOn CHR '','' ''contract_address,blockchain'' = uniqueKey"
  by code_simp

lemma fst_setField:
  "map fst (setField k v fs) = (if k \<in> set (map fst fs) then map fst fs else map fst fs @ [k])"
proof (induction fs)
  case Nil
  then show ?case by simp
next
  case (Cons kv fs)
  obtain k' v' where kv: "kv = (k', v')" by (cases kv)
  show ?case
  proof (cases "k' = k")
    case True
    with kv show ?thesis by simp
  next
    case False
    with kv Cons show ?thesis by simp
  qed
qed

lemma distinct_setField: "distinct (map fst fs) \<Longrightarrow> distinct (map fst (setField k v fs))"
  by (simp add: fst_setField)

lemma map_of_mergeRow:
  "distinct (map fst new) \<Longrightarrow>
   map_of (mergeRow old new) x = (case map_of new x of None \<Rightarrow> map_of old x | Some v \<Rightarrow> Some v)"
proof (induction new arbitrary: old)
  case Nil
  then show ?case by simp
next
  case (Cons kv new)
  obtain k v where kv: "kv = (k, v)" by (cases kv)
  with Cons.prems have k: "k \<notin> fst ` set new" and d: "distinct (map fst new)" by auto
  from k have "map_of new k = None" by (simp add: map_of_eq_None_iff)
  with Cons.IH [OF d, of "setField k v old"] kv show ?case
    by (simp add: map_of_setField split: option.splits)
qed

lemma keyOn_mergeRow:
  assumes "distinct (map fst new)" "set cols \<subseteq> fst ` set new"
  shows "keyOn cols (mergeRow old new) = keyOn cols new"
proof -
  have "map_of (mergeRow old new) c = map_of new c" if "c \<in> set cols" for c
  proof -
    from that assms(2) have "map_of new c \<noteq> None" by (auto simp: map_of_eq_None_iff)
    with assms(1) show ?thesis by (auto simp: map_of_mergeRow split: option.splits)
  qed
  then show ?thesis by (simp add: keyOn_def)
qed

lemma keys_upsertRow:
  assumes "distinct (map fst row)" "set cols \<subseteq> fst ` set row"
  shows "map (keyOn cols) (upsertRow cols row tbl) =
     (if keyOn cols row \<in> set (map (keyOn cols) tbl) then map (keyOn cols) tbl
      else map (keyOn cols) tbl @ [keyOn cols row])"
proof (induction tbl)
  case Nil
  then show ?case by simp
next
  case (Cons r rs)
  show ?case
  proof (cases "keyOn cols r = keyOn cols row")
    case True
    with keyOn_mergeRow [OF assms, of r] show ?thesis by simp
  next
    case False
    with Cons show ?thesis by auto
  qed
qed

lemma values_upsertRow:
  assumes "distinct (map fst row)" "set cols \<subseteq> fst ` set row"
    and "distinct (map (keyOn cols) tbl)"
    and "r \<in> set (upsertRow cols row tbl)" "keyOn cols r = keyOn cols row" "(k, v) \<in> set row"
  shows "map_of r k = Some v"
  using assms(3,4)
proof (induction tbl)
  case Nil
  with assms(1,5,6) show ?case by simp
next
  case (Cons r' rs)
  show ?case
  proof (cases "keyOn cols r' = keyOn cols row")
    case True
    with Cons.prems(1) have "keyOn cols row \<notin> keyOn cols ` set rs" by auto
    with assms(5) have "r \<notin> set rs" by (metis imageI)
    with Cons.prems(2) True have "r = mergeRow r' row" by simp
    with assms(1,6) show ?thesis by (simp add: map_of_mergeRow)
  next
    case False
    with Cons.prems(2) assms(5) have "r \<in> set (upsertRow cols row rs)" by auto
    with Cons.IH Cons.prems(1) show ?thesis by simp
  qed
qed

lemma one_row_per_key:
  "distinct (map K tbl) \<Longrightarrow> k \<in> set (map K tbl) \<Longrightarrow> length (filter (\<lambda>r. K r = k) tbl) = 1"
proof (induction tbl)
  case Nil
  then show ?case by simp
next
  case (Cons r rs)
  show ?case
  proof (cases "K r = k")
    case True
    with Cons.prems have "k \<notin> K ` set rs" by auto
    then have "filter (\<lambda>r. K r = k) rs = []" by (auto simp: filter_empty_conv)
    with True show ?thesis by simp
  next
    case False
    with Cons show ?thesis by auto
  qed
qed

lemma tokenData_Some:
  assumes "tokenData h c b t a rn rs rd = Some td"
  obtains name symbol decimals dt where
    "td = [(''contract_address'', JString a), (''creator_address'', JString (tx_from t)),
           (''created_block_timestamp'', JString dt), (''name'', JString name),
           (''symbol'', JString symbol), (''decimals'', safeDecimals decimals),
           (''blockchain'', JString c)]"
proof (cases "Promise_all rn rs rd")
  case Rejected
  with assms show ?thesis by (simp add: tokenData_def)
next
  case (Fulfilled nsd)
  obtain name symbol decimals where nsd: "nsd = (name, symbol, decimals)" by (cases nsd)
  show ?thesis
  proof (cases "toISOString h (timestamp b * 1000)")
    case None
    with assms Fulfilled nsd show ?thesis by (simp add: tokenData_def)
  next
    case (Some dt)
    with assms Fulfilled nsd that [of dt name symbol decimals] show ?thesis
      by (simp add: tokenData_def)
  qed
qed

lemma tokenData_key:
  assumes "tokenData h c b t a rn rs rd = Some td"
  shows "distinct (map fst td)" "keyOn uniqueKey td = [Some (JString a), Some (JString c)]"
proof -
  from assms obtain name symbol decimals dt where
    td: "td = [(''contract_address'', JString a), (''creator_address'', JString (tx_from t)),
           (''created_block_timestamp'', JString dt), (''name'', JString name),
           (''symbol'', JString symbol), (''decimals'', safeDecimals decimals),
           (''blockchain'', JString c)]"
    by (rule tokenData_Some)
  show "distinct (map fst td)" unfolding td by simp
  show "keyOn uniqueKey td = [Some (JString a), Some (JString c)]"
    unfolding td by (simp add: keyOn_def uniqueKey_def)
qed

lemma fst_setField_sub: "set (map fst fs) \<subseteq> set (map fst (setField k v fs))"
  by (simp add: fst_setField subset_insertI)

lemma insertData_Some:
  assumes "insertData h td ra = Some (row, lg)"
  obtains "row = td"
  | x y z where "row = setField ''detection_details'' x
        (setField ''fraud_type'' y (setField ''risk_category'' z td))"
proof (cases "assessment_of ra")
  case None
  with assms that(1) show ?thesis by (simp add: insertData_def)
next
  case (Some v)
  with assms that(2) show ?thesis
    by (auto simp: insertData_def split: Option.bind_splits)
qed

lemma insertData_key:
  assumes "insertData h td ra = Some (row, lg)" "distinct (map fst td)"
  shows "distinct (map fst row)" "keyOn uniqueKey row = keyOn uniqueKey td"
    "set (map fst td) \<subseteq> set (map fst row)"
proof -
  from assms(1) have "distinct (map fst row) \<and> keyOn uniqueKey row = keyOn uniqueKey td \<and>
      set (map fst td) \<subseteq> set (map fst row)"
  proof (cases rule: insertData_Some)
    case 1
    with assms(2) show ?thesis by simp
  next
    case (2 x y z)
    from assms(2) have "distinct (map fst row)" unfolding 2 by (intro distinct_setField)
    moreover have "keyOn uniqueKey row = keyOn uniqueKey td"
      unfolding 2 by (simp add: keyOn_def uniqueKey_def map_of_setField)
    moreover have "set (map fst td) \<subseteq> set (map fst row)"
      unfolding 2 using fst_setField_sub by (blast intro: subset_trans)
    ultimately show ?thesis by simp
  qed
  then show "distinct (map fst row)" "keyOn uniqueKey row = keyOn uniqueKey td"
    "set (map fst td) \<subseteq> set (map fst row)" by simp_all
qed

lemma requests_insertData: "insertData h td ra = Some (row, lg) \<Longrightarrow> requests lg = []"
  by (auto simp: insertData_def split: option.splits Option.bind_splits)

lemma requests_onClose:
  "requests (trace (onClose h td riskResult riskError code s)) =
     requests (trace s) @
     (case insertData h td (fst (parseRisk h riskResult code)) of None \<Rightarrow> []
      | Some (row, lg) \<Rightarrow> [Upsert [JObject row] ''contract_address,blockchain''])"
proof -
  obtain ra lg where p: "parseRisk h riskResult code = (ra, lg)" by (cases "parseRisk h riskResult code")
  from p requests_parseRisk [of h riskResult code] have lg: "requests lg = []" by simp
  show ?thesis
  proof (cases "insertData h td ra")
    case None
    with p lg show ?thesis by (simp add: onClose_def)
  next
    case (Some r)
    obtain row lg' where r: "r = (row, lg')" by (cases r)
    with Some have "requests lg' = []" by (auto dest: requests_insertData)
    with Some r p lg show ?thesis by (simp add: onClose_def)
  qed
qed

lemma serve_Upsert_one:
  "serve (Upsert [JObject row] ''contract_address,blockchain'') tbl = upsertRow uniqueKey row tbl"
  by (simp add: uniqueKey_def)

lemma upsert_twice:
  assumes r1: "distinct (map fst row1)" "keyOn uniqueKey row1 = key" "set uniqueKey \<subseteq> fst ` set row1"
    and r2: "distinct (map fst row2)" "keyOn uniqueKey row2 = key" "set uniqueKey \<subseteq> fst ` set row2"
    and tbl: "distinct (map (keyOn uniqueKey) tbl)"
  defines "tbl' \<equiv> upsertRow uniqueKey row2 (upsertRow uniqueKey row1 tbl)"
  shows "distinct (map (keyOn uniqueKey) tbl')"
    "length (filter (\<lambda>r. keyOn uniqueKey r = key) tbl') = 1"
    "\<forall>r \<in> set tbl'. keyOn uniqueKey r = key \<longrightarrow> (\<forall>(k, v) \<in> set row2. map_of r k = Some v)"
proof -
  let ?K = "keyOn uniqueKey"
  let ?tbl1 = "upsertRow uniqueKey row1 tbl"
  have k1: "map ?K ?tbl1 = (if key \<in> set (map ?K tbl) then map ?K tbl else map ?K tbl @ [key])"
    using keys_upsertRow [OF r1(1,3), of tbl] r1(2) by simp
  with tbl have d1: "distinct (map ?K ?tbl1)" and in1: "key \<in> set (map ?K ?tbl1)" by auto
  have k2: "map ?K tbl' = map ?K ?tbl1"
    using keys_upsertRow [OF r2(1,3), of ?tbl1] r2(2) in1 by (simp add: tbl'_def)
  with d1 show d2: "distinct (map ?K tbl')" by simp
  from k2 in1 have "key \<in> set (map ?K tbl')" by simp
  with d2 show "length (filter (\<lambda>r. ?K r = key) tbl') = 1" by (rule one_row_per_key)
  show "\<forall>r \<in> set tbl'. ?K r = key \<longrightarrow> (\<forall>(k, v) \<in> set row2. map_of r k = Some v)"
    using values_upsertRow [OF r2(1,3) d1] r2(2) by (auto simp: tbl'_def)
qed

text \<open>
  Claim C7, for the listener of \<^verbatim>\<open>src/unnamed/part_000\<close> against the datastore of the
  spec. The close handler calls the datastore once, with an upsert of the record on the
  conflict target \<open>contract_address,blockchain\<close>, or not at all when the record could
  not be built. When two records of one token, built from any two verdicts, are
  upserted one after the other into a table whose keys are distinct, the keys of the
  table stay distinct, the table has exactly one row with the address and the network
  of the token, and every column of the second record has its value in that row.
\<close>

theorem upsert_twice_one_row:
  "requests (trace (onClose h td riskResult riskError code s)) =
     requests (trace s) @
     (case insertData h td (fst (parseRisk h riskResult code)) of None \<Rightarrow> []
      | Some (row, lg) \<Rightarrow> [Upsert [JObject row] ''contract_address,blockchain'']) \<and>
   (tokenData h c b t a rn rs rd = Some td \<and>
    insertData h td ra1 = Some (row1, lg1) \<and> insertData h td ra2 = Some (row2, lg2) \<and>
    distinct (map (keyOn uniqueKey) tbl) \<longrightarrow>
      distinct (map (keyOn uniqueKey)
        (serve (Upsert [JObject row2] ''contract_address,blockchain'')
           (serve (Upsert [JObject row1] ''contract_address,blockchain'') tbl))) \<and>
      length (filter (\<lambda>r. keyOn uniqueKey r = [Some (JString a), Some (JString c)])
        (serve (Upsert [JObject row2] ''contract_address,blockchain'')
           (serve (Upsert [JObject row1] ''contract_address,blockchain'') tbl))) = 1 \<and>
      (\<forall>r \<in> set (serve (Upsert [JObject row2] ''contract_address,blockchain'')
           (serve (Upsert [JObject row1] ''contract_address,blockchain'') tbl)).
         keyOn uniqueKey r = [Some (JString a), Some (JString c)] \<longrightarrow>
         (\<forall>(k, v) \<in> set row2. map_of r k = Some v)))"
proof (intro conjI impI)
  show "requests (trace (onClose h td riskResult riskError code s)) =
     requests (trace s) @
     (case insertData h td (fst (parseRisk h riskResult code)) of None \<Rightarrow> []
      | Some (row, lg) \<Rightarrow> [Upsert [JObject row] ''contract_address,blockchain''])"
    by (rule requests_onClose)
next
  assume a: "tokenData h c b t a rn rs rd = Some td \<and>
    insertData h td ra1 = Some (row1, lg1) \<and> insertData h td ra2 = Some (row2, lg2) \<and>
    distinct (map (keyOn uniqueKey) tbl)"
  let ?key = "[Some (JString a), Some (JString c)]"
  from a have tk: "tokenData h c b t a rn rs rd = Some td"
    and i1: "insertData h td ra1 = Some (row1, lg1)"
    and i2: "insertData h td ra2 = Some (row2, lg2)"
    and tbl: "distinct (map (keyOn uniqueKey) tbl)" by simp_all
  from tk have td: "distinct (map fst td)" "keyOn uniqueKey td = ?key"
    by (rule tokenData_key)+
  from tk obtain name symbol decimals dt where
    "td = [(''contract_address'', JString a), (''creator_address'', JString (tx_from t)),
           (''created_block_timestamp'', JString dt), (''name'', JString name),
           (''symbol'', JString symbol), (''decimals'', safeDecimals decimals),
           (''blockchain'', JString c)]"
    by (rule tokenData_Some)
  then have cols: "set uniqueKey \<subseteq> set (map fst td)" by (simp add: uniqueKey_def)
  from td cols have r1: "distinct (map fst row1)" "keyOn uniqueKey row1 = ?key"
    "set uniqueKey \<subseteq> fst ` set row1"
    using insertData_key [OF i1 td(1)] by auto
  from td cols have r2: "distinct (map fst row2)" "keyOn uniqueKey row2 = ?key"
    "set uniqueKey \<subseteq> fst ` set row2"
    using insertData_key [OF i2 td(1)] by auto
  note twice = upsert_twice [OF r1 r2 tbl]
  from twice(1) show "distinct (map (keyOn uniqueKey)
        (serve (Upsert [JObject row2] ''contract_address,blockchain'')
           (serve (Upsert [JObject row1] ''contract_address,blockchain'') tbl)))"
    unfolding serve_Upsert_one .
  from twice(2) show "length (filter (\<lambda>r. keyOn uniqueKey r = ?key)
        (serve (Upsert [JObject row2] ''contract_address,blockchain'')
           (serve (Upsert [JObject row1] ''contract_address,blockchain'') tbl))) = 1"
    unfolding serve_Upsert_one .
  from twice(3) show "\<forall>r \<in> set (serve (Upsert [JObject row2] ''contract_address,blockchain'')
           (serve (Upsert [JObject row1] ''contract_address,blockchain'') tbl)).
         keyOn uniqueKey r = ?key \<longrightarrow> (\<forall>(k, v) \<in> set row2. map_of r k = Some v)"
    unfolding serve_Upsert_one .
qed

theorem upsert_twice_one_row_witness:
  "tokenData exampleHost ''ethereum'' exampleBlock exampleTx ''0xAAA''
     (Fulfilled ''Foo'') (Fulfilled ''FOO'') (Fulfilled (JNumber (Fin 18))) = Some exampleToken \<and>
   insertData exampleHost exampleToken (JArray [JObject [(''risk_category'', JString ''high'')]]) =
     Some (exampleRow ''high'', [ConsoleLog ''Preparing to save with'']) \<and>
   insertData exampleHost exampleToken (JArray [JObject [(''risk_category'', JString ''low'')]]) =
     Some (exampleRow ''low'', [ConsoleLog ''Preparing to save with'']) \<and>
   distinct (map (keyOn uniqueKey) ([] :: table)) \<and>
   serve (Upsert [JObject (exampleRow ''low'')] ''contract_address,blockchain'')
     (serve (Upsert [JObject (exampleRow ''high'')] ''contract_address,blockchain'') []) =
     [exampleRow ''low''] \<and>
   length (filter (\<lambda>r. keyOn uniqueKey r = [Some (JString ''0xAAA''), Some (JString ''ethereum'')])
     (serve (Upsert [JObject (exampleRow ''low'')] ''contract_address,blockchain'')
        (serve (Upsert [JObject (exampleRow ''high'')] ''contract_address,blockchain'') []))) = 1"
proof -
  have p1: "tokenData exampleHost ''ethereum'' exampleBlock exampleTx ''0xAAA''
     (Fulfilled ''Foo'') (Fulfilled ''FOO'') (Fulfilled (JNumber (Fin 18))) = Some exampleToken"
    by (rule exampleToken)
  have p2: "insertData exampleHost exampleToken (JArray [JObject [(''risk_category'', JString ''high'')]]) =
     Some (exampleRow ''high'', [ConsoleLog ''Preparing to save with''])"
    by code_simp
  have p3: "insertData exampleHost exampleToken (JArray [JObject [(''risk_category'', JString ''low'')]]) =
     Some (exampleRow ''low'', [ConsoleLog ''Preparing to save with''])"
    by code_simp
  have p4: "distinct (map (keyOn uniqueKey) ([] :: table))" by simp
  have p5: "serve (Upsert [JObject (exampleRow ''low'')] ''contract_address,blockchain'')
     (serve (Upsert [JObject (exampleRow ''high'')] ''contract_address,blockchain'') []) =
     [exampleRow ''low'']"
    by code_simp
  note inst = upsert_twice_one_row [of exampleHost exampleToken "[]" "[]" "Some 0" init
      "''ethereum''" exampleBlock exampleTx "''0xAAA''"
      "Fulfilled ''Foo''" "Fulfilled ''FOO''" "Fulfilled (JNumber (Fin 18))"
      "JArray [JObject [(''risk_category'', JString ''high'')]]" "exampleRow ''high''"
      "[ConsoleLog ''Preparing to save with'']"
      "JArray [JObject [(''risk_category'', JString ''low'')]]" "exampleRow ''low''"
      "[ConsoleLog ''Preparing to save with'']" "[]"]
  let ?tbl = "serve (Upsert [JObject (exampleRow ''low'')] ''contract_address,blockchain'')
        (serve (Upsert [JObject (exampleRow ''high'')] ''contract_address,blockchain'') [])"
  let ?key = "[Some (JString ''0xAAA''), Some (JString ''ethereum'')]"
  from p1 p2 p3 p4 have hyps: "tokenData exampleHost ''ethereum'' exampleBlock exampleTx ''0xAAA''
      (Fulfilled ''Foo'') (Fulfilled ''FOO'') (Fulfilled (JNumber (Fin 18))) = Some exampleToken \<and>
    insertData exampleHost exampleToken (JArray [JObject [(''risk_category'', JString ''high'')]]) =
      Some (exampleRow ''high'', [ConsoleLog ''Preparing to save with'']) \<and>
    insertData exampleHost exampleToken (JArray [JObject [(''risk_category'', JString ''low'')]]) =
      Some (exampleRow ''low'', [ConsoleLog ''Preparing to save with'']) \<and>
    distinct (map (keyOn uniqueKey) ([] :: table))"
    by (intro conjI)
  from inst [THEN conjunct2] hyps have "distinct (map (keyOn uniqueKey) ?tbl) \<and>
      length (filter (\<lambda>r. keyOn uniqueKey r = ?key) ?tbl) = 1 \<and>
      (\<forall>r \<in> set ?tbl. keyOn uniqueKey r = ?key \<longrightarrow>
         (\<forall>(k, v) \<in> set (exampleRow ''low''). map_of r k = Some v))"
    by (rule mp)
  then have "length (filter (\<lambda>r. keyOn uniqueKey r = ?key) ?tbl) = 1"
    by (elim conjE)
  with p1 p2 p3 p4 p5 show ?thesis by (intro conjI)
qed

text \<open>
  The listener of \<^verbatim>\<open>src/listener.js\<close> calls \<^verbatim>\<open>insert\<close>. The second record of a token is
  refused by the unique key and the row keeps the values of the first.
\<close>

theorem listener_js_second_insert_refused:
  "requests (trace (onClose_listener_js exampleHost exampleToken
       ''{\"risk_score\":90,\"is_suspicious\":true}'' [] (Some 0)
       (onClose_listener_js exampleHost exampleToken
          ''{\"risk_score\":10,\"is_suspicious\":false}'' [] (Some 0) init_listener_js))) =
     [Insert [JObject (exampleRow_listener_js 10 False)],
      Insert [JObject (exampleRow_listener_js 90 True)]] \<and>
   serve (Insert [JObject (exampleRow_listener_js 90 True)])
     (serve (Insert [JObject (exampleRow_listener_js 10 False)]) []) =
     [exampleRow_listener_js 10 False]"
  by code_simp

end
